theory Spec2Isabelle
  imports Complex_Main "HOL-Library.Log_Nat"
begin

section \<open>Python values used by the time-code helpers\<close>

text \<open>
  The repository is a Python program. A Python \<open>str\<close> is modelled as a \<open>string\<close> whose
  characters are the code points below 256; an \<open>int\<close> is an unbounded \<open>int\<close>; a
  \<open>float\<close> is an IEEE binary64 value, modelled by its exact rational value
  (\<open>Fin\<close>) or one of the three non-finite values. The sign of a zero is not
  represented. Every exception of the source is a value \<open>Inl e\<close>.
\<close>

datatype error =
    ValueError
  | OverflowError
  | FileNotFoundError
  | TranscriptionFailed
  | DiarizationFailed
  | ModelLoadFailed

datatype pyfloat = Fin rat | PInf | NInf | NaN

subsection \<open>Strings\<close>

definition is_digit :: "char \<Rightarrow> bool" where
  "is_digit c = (48 \<le> (of_char c :: nat) \<and> (of_char c :: nat) \<le> 57)"

definition digit_val :: "char \<Rightarrow> nat" where
  "digit_val c = of_char c - 48"

definition digit_char :: "nat \<Rightarrow> char" where
  "digit_char d = char_of (48 + d)"

text \<open>\<open>str.isspace\<close> on the code points below 256.\<close>

definition is_space :: "char \<Rightarrow> bool" where
  "is_space c = ((of_char c :: nat) \<in> {9, 10, 11, 12, 13, 28, 29, 30, 31, 32, 133, 160})"

definition lstrip :: "string \<Rightarrow> string" where
  "lstrip s = dropWhile is_space s"

definition rstrip :: "string \<Rightarrow> string" where
  "rstrip s = rev (dropWhile is_space (rev s))"

text \<open>\<open>s.strip()\<close>\<close>

definition strip :: "string \<Rightarrow> string" where
  "strip s = rstrip (lstrip s)"

text \<open>\<open>s.split(sep)\<close> for a one-character separator: always at least one part.\<close>

fun split_on :: "char \<Rightarrow> string \<Rightarrow> string list" where
  "split_on sep [] = [[]]"
| "split_on sep (c # cs) =
     (if c = sep then [] # split_on sep cs
      else (case split_on sep cs of p # ps \<Rightarrow> (c # p) # ps | [] \<Rightarrow> [[c]]))"

text \<open>\<open>str(n)\<close> for a natural number: its decimal digits.\<close>

fun show_nat :: "nat \<Rightarrow> string" where
  "show_nat n = (if n < 10 then [digit_char n] else show_nat (n div 10) @ [digit_char (n mod 10)])"

declare show_nat.simps [simp del]

text \<open>Left padding with zeros to a minimum width.\<close>

definition zfill :: "nat \<Rightarrow> string \<Rightarrow> string" where
  "zfill w s = replicate (w - length s) CHR ''0'' @ s"

text \<open>The format \<open>{n:02d}\<close>: the sign first, then zeros up to the width 2.\<close>

definition fmt_02d :: "int \<Rightarrow> string" where
  "fmt_02d n = (if n < 0 then CHR ''-'' # zfill 1 (show_nat (nat (- n))) else zfill 2 (show_nat (nat n)))"

subsection \<open>\<open>int(str)\<close>\<close>

text \<open>
  A digit part is \<open>digit (["_"] digit)*\<close>. \<open>digits_from acc k s\<close> reads the longest
  digit part continuing after a digit, and returns its value, its number of digits and
  the rest of the string.
\<close>

fun digits_from :: "nat \<Rightarrow> nat \<Rightarrow> string \<Rightarrow> nat \<times> nat \<times> string" where
  "digits_from acc k [] = (acc, k, [])"
| "digits_from acc k [c] =
     (if is_digit c then (10 * acc + digit_val c, Suc k, []) else (acc, k, [c]))"
| "digits_from acc k (c # d # cs) =
     (if is_digit c then digits_from (10 * acc + digit_val c) (Suc k) (d # cs)
      else if c = CHR ''_'' \<and> is_digit d then digits_from (10 * acc + digit_val d) (Suc k) cs
      else (acc, k, c # d # cs))"

definition digitpart :: "string \<Rightarrow> (nat \<times> nat \<times> string) option" where
  "digitpart s =
     (case s of [] \<Rightarrow> None
      | c # cs \<Rightarrow> if is_digit c then Some (digits_from (digit_val c) 1 cs) else None)"

text \<open>An optional sign: the factor and the rest.\<close>

definition read_sign :: "string \<Rightarrow> int \<times> string" where
  "read_sign s =
     (case s of [] \<Rightarrow> (1, [])
      | c # cs \<Rightarrow> if c = CHR ''-'' then (-1, cs) else if c = CHR ''+'' then (1, cs) else (1, s))"

text \<open>\<open>int(s)\<close> in base 10: surrounding whitespace, a sign, a digit part.\<close>

definition py_int :: "string \<Rightarrow> error + int" where
  "py_int s =
     (let (sg, r) = read_sign (strip s)
      in case digitpart r of
           Some (v, k, []) \<Rightarrow> Inr (sg * int v)
         | _ \<Rightarrow> Inl ValueError)"

subsection \<open>Binary64 arithmetic\<close>

text \<open>\<open>flog2 x\<close> is the integer \<open>e\<close> with \<open>2 ^ e \<le> \<bar>x\<bar> < 2 ^ (e + 1)\<close>, for \<open>x \<noteq> 0\<close>.\<close>

definition flog2 :: "rat \<Rightarrow> int" where
  "flog2 x =
     (let (p, q) = quotient_of \<bar>x\<bar>; d = bitlen p - bitlen q
      in if 2 powi d \<le> \<bar>x\<bar> then d else d - 1)"

text \<open>Rounding to the nearest integer, a tie to the even one.\<close>

definition round_half_even :: "rat \<Rightarrow> int" where
  "round_half_even x =
     (let f = \<lfloor>x\<rfloor>; r = x - of_int f
      in if r < 1 / 2 then f else if 1 / 2 < r then f + 1 else if even f then f else f + 1)"

text \<open>
  \<open>rd x\<close> is the binary64 value nearest to \<open>x\<close> (53 significant bits, the least
  exponent \<open>-1074\<close>, ties to even), before the overflow test.
\<close>

definition rd :: "rat \<Rightarrow> rat" where
  "rd x =
     (if x = 0 then 0
      else let q = max (flog2 x - 52) (- 1074)
           in of_int (round_half_even (x / 2 powi q)) * 2 powi q)"

text \<open>The result of an operation whose exact value is \<open>x\<close>: rounded, infinite on overflow.\<close>

definition to_float :: "rat \<Rightarrow> pyfloat" where
  "to_float x =
     (let y = rd x
      in if 2 ^ 1024 \<le> y then PInf else if y \<le> - (2 ^ 1024) then NInf else Fin y)"

text \<open>\<open>float(n)\<close> for an int, as in \<open>int + float\<close>: OverflowError when it is too large.\<close>

definition int_to_float :: "int \<Rightarrow> error + rat" where
  "int_to_float n =
     (let y = rd (of_int n) in if 2 ^ 1024 \<le> \<bar>y\<bar> then Inl OverflowError else Inr y)"

text \<open>\<open>a + b\<close> and \<open>a - b\<close> on floats.\<close>

fun fadd :: "pyfloat \<Rightarrow> pyfloat \<Rightarrow> pyfloat" where
  "fadd (Fin a) (Fin b) = to_float (a + b)"
| "fadd NaN _ = NaN"
| "fadd _ NaN = NaN"
| "fadd PInf NInf = NaN"
| "fadd NInf PInf = NaN"
| "fadd PInf _ = PInf"
| "fadd NInf _ = NInf"
| "fadd _ PInf = PInf"
| "fadd _ NInf = NInf"

fun fneg :: "pyfloat \<Rightarrow> pyfloat" where
  "fneg (Fin a) = Fin (- a)"
| "fneg PInf = NInf"
| "fneg NInf = PInf"
| "fneg NaN = NaN"

definition fsub :: "pyfloat \<Rightarrow> pyfloat \<Rightarrow> pyfloat" where
  "fsub a b = fadd a (fneg b)"

text \<open>\<open>n + x\<close> and \<open>x - n\<close> for an int \<open>n\<close> and a float \<open>x\<close>: the int is converted first.\<close>

definition int_add_float :: "int \<Rightarrow> pyfloat \<Rightarrow> error + pyfloat" where
  "int_add_float n x =
     (case int_to_float n of Inl e \<Rightarrow> Inl e | Inr y \<Rightarrow> Inr (fadd (Fin y) x))"

definition float_sub_int :: "pyfloat \<Rightarrow> int \<Rightarrow> error + pyfloat" where
  "float_sub_int x n =
     (case int_to_float n of Inl e \<Rightarrow> Inl e | Inr y \<Rightarrow> Inr (fsub x (Fin y)))"

text \<open>
  C's \<open>fmod\<close>, which is exact: the remainder has the sign of \<open>x\<close>.
\<close>

definition trunc :: "rat \<Rightarrow> int" where
  "trunc x = (if 0 \<le> x then \<lfloor>x\<rfloor> else \<lceil>x\<rceil>)"

definition fmod :: "rat \<Rightarrow> rat \<Rightarrow> rat" where
  "fmod x y = x - y * of_int (trunc (x / y))"

text \<open>
  \<open>divmod(x, y)\<close> on finite floats with \<open>y \<noteq> 0\<close>, as the interpreter computes it:
  the remainder by \<open>fmod\<close>, moved to the sign of \<open>y\<close>; the quotient from
  \<open>(x - mod) / y\<close>, snapped to the nearest integer. It gives \<open>x // y\<close> and \<open>x % y\<close>.
\<close>

definition float_divmod :: "rat \<Rightarrow> rat \<Rightarrow> rat \<times> rat" where
  "float_divmod x y =
     (let m = fmod x y;
          d = rd (rd (x - m) / y);
          (m1, d1) = (if m \<noteq> 0 \<and> ((y < 0) \<noteq> (m < 0)) then (rd (m + y), rd (d - 1)) else (m, d));
          f = (if d1 \<noteq> 0
               then (let fl = of_int \<lfloor>d1\<rfloor> in if 1 / 2 < d1 - fl then rd (fl + 1) else fl)
               else 0)
      in (f, m1))"

definition float_floordiv :: "rat \<Rightarrow> rat \<Rightarrow> rat" where
  "float_floordiv x y = fst (float_divmod x y)"

definition float_mod :: "rat \<Rightarrow> rat \<Rightarrow> rat" where
  "float_mod x y = snd (float_divmod x y)"

subsection \<open>\<open>float(str)\<close>\<close>

definition to_lower :: "char \<Rightarrow> char" where
  "to_lower c = (if 65 \<le> (of_char c :: nat) \<and> (of_char c :: nat) \<le> 90 then char_of (of_char c + 32 :: nat) else c)"

text \<open>
  The mantissa \<open>[digitpart] ["." [digitpart]]\<close> with at least one digit: all its digits
  as one number, the number of digits after the point, and the rest.
\<close>

definition read_mantissa :: "string \<Rightarrow> (nat \<times> nat \<times> string) option" where
  "read_mantissa s =
     (case digitpart s of
        Some (iv, _, r) \<Rightarrow>
          (case r of
             [] \<Rightarrow> Some (iv, 0, [])
           | c # r' \<Rightarrow>
               if c = CHR ''.''
               then (case digitpart r' of
                       Some (fv, fk, r'') \<Rightarrow> Some (iv * 10 ^ fk + fv, fk, r'')
                     | None \<Rightarrow> Some (iv, 0, r'))
               else Some (iv, 0, r))
      | None \<Rightarrow>
          (case s of
             [] \<Rightarrow> None
           | c # r' \<Rightarrow>
               if c = CHR ''.''
               then (case digitpart r' of
                       Some (fv, fk, r'') \<Rightarrow> Some (fv, fk, r'')
                     | None \<Rightarrow> None)
               else None))"

text \<open>The exponent \<open>("e" | "E") ["+" | "-"] digitpart\<close>, or nothing, up to the end.\<close>

definition read_exponent :: "string \<Rightarrow> int option" where
  "read_exponent s =
     (case s of
        [] \<Rightarrow> Some 0
      | c # r \<Rightarrow>
          if c = CHR ''e'' \<or> c = CHR ''E''
          then (let (sg, r') = read_sign r
                in case digitpart r' of Some (ev, _, []) \<Rightarrow> Some (sg * int ev) | _ \<Rightarrow> None)
          else None)"

definition read_number :: "string \<Rightarrow> rat option" where
  "read_number s =
     (case read_mantissa s of
        None \<Rightarrow> None
      | Some (m, fk, r) \<Rightarrow>
          (case read_exponent r of
             None \<Rightarrow> None
           | Some e \<Rightarrow> Some (of_nat m * 10 powi (e - int fk))))"

text \<open>\<open>float(s)\<close>: surrounding whitespace, a sign, then a number, \<open>inf\<close> or \<open>nan\<close>.\<close>

definition py_float :: "string \<Rightarrow> error + pyfloat" where
  "py_float s =
     (let (sg, r) = read_sign (strip s); l = map to_lower r
      in if l = ''inf'' \<or> l = ''infinity'' then Inr (if sg < 0 then NInf else PInf)
         else if l = ''nan'' then Inr NaN
         else (case read_number r of
                 None \<Rightarrow> Inl ValueError
               | Some v \<Rightarrow> Inr (to_float (of_int sg * v))))"

text \<open>
  The format \<open>{x:06.3f}\<close>: the exact value rounded to three decimals (ties to even),
  the sign first, then zeros up to the width 6.
\<close>

definition fmt_06_3f :: "pyfloat \<Rightarrow> string" where
  "fmt_06_3f x =
     (case x of
        Fin v \<Rightarrow>
          (let n = nat (round_half_even (\<bar>v\<bar> * 1000));
               body = show_nat (n div 1000) @ ''.'' @ zfill 3 (show_nat (n mod 1000))
           in if v < 0 then CHR ''-'' # zfill 5 body else zfill 6 body)
      | PInf \<Rightarrow> ''000inf''
      | NInf \<Rightarrow> ''-00inf''
      | NaN \<Rightarrow> ''000nan'')"

section \<open>Time-code helpers (app/utils/time_utils.py)\<close>

text \<open>\<open>int(x)\<close> for a float: truncation; it raises on a non-finite value.\<close>

definition seconds_to_hms :: "pyfloat \<Rightarrow> error + string" where
  "seconds_to_hms seconds =
     (case seconds of
        Fin v \<Rightarrow>
          (let hours = trunc (float_floordiv v 3600);
               minutes = trunc (float_floordiv (float_mod v 3600) 60)
           in case float_sub_int (Fin v) (hours * 3600 + minutes * 60) of
                Inl e \<Rightarrow> Inl e
              | Inr secs \<Rightarrow> Inr (fmt_02d hours @ '':'' @ fmt_02d minutes @ '':'' @ fmt_06_3f secs))
      | _ \<Rightarrow> Inl ValueError)"

text \<open>The first part of \<open>hms_to_seconds\<close>: the text before the point and the fraction.\<close>

definition split_ms :: "string \<Rightarrow> error + string \<times> pyfloat" where
  "split_ms hms =
     (if CHR ''.'' \<in> set hms
      then (case split_on CHR ''.'' hms of
              [t, ms] \<Rightarrow>
                (case py_float (''0.'' @ ms) of Inl e \<Rightarrow> Inl e | Inr f \<Rightarrow> Inr (t, f))
            | _ \<Rightarrow> Inl ValueError)
      else Inr (hms, Fin 0))"

definition hms_to_seconds :: "string \<Rightarrow> error + pyfloat" where
  "hms_to_seconds hms =
     (case split_ms hms of
        Inl e \<Rightarrow> Inl e
      | Inr (t, ms) \<Rightarrow>
          (case split_on CHR '':'' t of
             [h, m, s] \<Rightarrow>
               (case py_int h of Inl e \<Rightarrow> Inl e | Inr hv \<Rightarrow>
                case py_int m of Inl e \<Rightarrow> Inl e | Inr mv \<Rightarrow>
                case py_int s of Inl e \<Rightarrow> Inl e | Inr sv \<Rightarrow>
                  int_add_float (hv * 3600 + mv * 60 + sv) ms)
           | [m, s] \<Rightarrow>
               (case py_int m of Inl e \<Rightarrow> Inl e | Inr mv \<Rightarrow>
                case py_int s of Inl e \<Rightarrow> Inl e | Inr sv \<Rightarrow>
                  int_add_float (mv * 60 + sv) ms)
           | parts \<Rightarrow>
               (case py_int (hd parts) of Inl e \<Rightarrow> Inl e | Inr sv \<Rightarrow> int_add_float sv ms)))"

subsection \<open>The validator's regular expression\<close>

text \<open>
  The fragment of Python's \<open>re\<close> that the pattern uses. A matcher state is the number
  of characters consumed and the text that is left; \<open>rm r st\<close> lists the states in
  which a match of \<open>r\<close> from \<open>st\<close> can end, in the order backtracking tries them.
  \<open>^\<close> matches at the start of the text; \<open>$\<close> (without MULTILINE) matches at the
  end of the text and just before a newline that ends the text.
\<close>

datatype regex =
    Bol
  | Eol
  | Lit char
  | Range char char
  | Cat "regex list"
  | Opt regex
  | Rep nat nat regex

type_synonym mstate = "nat \<times> string"

primrec rep_exact :: "(mstate \<Rightarrow> mstate list) \<Rightarrow> nat \<Rightarrow> mstate \<Rightarrow> mstate list" where
  "rep_exact f 0 st = [st]"
| "rep_exact f (Suc n) st = concat (map (rep_exact f n) (f st))"

primrec rep_upto :: "(mstate \<Rightarrow> mstate list) \<Rightarrow> nat \<Rightarrow> mstate \<Rightarrow> mstate list" where
  "rep_upto f 0 st = [st]"
| "rep_upto f (Suc n) st = concat (map (rep_upto f n) (f st)) @ [st]"

definition in_range :: "char \<Rightarrow> char \<Rightarrow> char \<Rightarrow> bool" where
  "in_range lo hi c = ((of_char lo :: nat) \<le> of_char c \<and> (of_char c :: nat) \<le> of_char hi)"

definition eat :: "(char \<Rightarrow> bool) \<Rightarrow> mstate \<Rightarrow> mstate list" where
  "eat P st = (case snd st of [] \<Rightarrow> [] | c # cs \<Rightarrow> if P c then [(Suc (fst st), cs)] else [])"

primrec rm :: "regex \<Rightarrow> mstate \<Rightarrow> mstate list"
  and rm_cat :: "regex list \<Rightarrow> mstate \<Rightarrow> mstate list" where
  "rm Bol = (\<lambda>st. if fst st = 0 then [st] else [])"
| "rm Eol = (\<lambda>st. if snd st = [] \<or> snd st = [CHR 0x0A] then [st] else [])"
| "rm (Lit a) = eat (\<lambda>c. c = a)"
| "rm (Range lo hi) = eat (in_range lo hi)"
| "rm (Cat rs) = rm_cat rs"
| "rm (Opt r) = (\<lambda>st. rm r st @ [st])"
| "rm (Rep lo hi r) = (\<lambda>st. concat (map (rep_upto (rm r) (hi - lo)) (rep_exact (rm r) lo st)))"
| "rm_cat [] = (\<lambda>st. [st])"
| "rm_cat (r # rs) = (\<lambda>st. concat (map (rm_cat rs) (rm r st)))"

text \<open>\<open>re.match(pattern, s) is not None\<close>: some match starts at the beginning of \<open>s\<close>.\<close>

definition re_match :: "regex \<Rightarrow> string \<Rightarrow> bool" where
  "re_match r s = (rm r (0, s) \<noteq> [])"

text \<open>The body \<open>([0-9]{1,2}:)?[0-5]?[0-9]:[0-5][0-9](\.[0-9]{1,3})?\<close> of the pattern.\<close>

definition time_body :: "regex list" where
  "time_body =
     [Opt (Cat [Rep 1 2 (Range CHR ''0'' CHR ''9''), Lit CHR '':'']),
      Opt (Range CHR ''0'' CHR ''5''), Range CHR ''0'' CHR ''9'', Lit CHR '':'',
      Range CHR ''0'' CHR ''5'', Range CHR ''0'' CHR ''9'',
      Opt (Cat [Lit CHR ''.'', Rep 1 3 (Range CHR ''0'' CHR ''9'')])]"

definition validate_time_format :: "string \<Rightarrow> bool" where
  "validate_time_format time_str = re_match (Cat ([Bol] @ time_body @ [Eol])) time_str"

text \<open>
  The specification's reading of the validator: the whole text is a word of the
  regular expression.
\<close>

definition spec_is_valid :: "string \<Rightarrow> bool" where
  "spec_is_valid s = list_ex (\<lambda>st. snd st = []) (rm (Cat time_body) (0, s))"

section \<open>The copies of the helpers in main.py\<close>

definition main_seconds_to_hms :: "pyfloat \<Rightarrow> error + string" where
  "main_seconds_to_hms seconds =
     (case seconds of
        Fin v \<Rightarrow>
          (let hours = trunc (float_floordiv v 3600);
               minutes = trunc (float_floordiv (float_mod v 3600) 60)
           in case float_sub_int (Fin v) (hours * 3600 + minutes * 60) of
                Inl e \<Rightarrow> Inl e
              | Inr secs \<Rightarrow> Inr (fmt_02d hours @ '':'' @ fmt_02d minutes @ '':'' @ fmt_06_3f secs))
      | _ \<Rightarrow> Inl ValueError)"

text \<open>
  main.py writes the branches as \<open>if len(parts) == 3 ... elif len(parts) == 2 ... else\<close>
  and unpacks \<open>parts\<close> in each.
\<close>

definition main_hms_to_seconds :: "string \<Rightarrow> error + pyfloat" where
  "main_hms_to_seconds hms =
     (case (if CHR ''.'' \<in> set hms
            then (let ps = split_on CHR ''.'' hms
                  in if length ps = 2
                     then (case py_float (''0.'' @ ps ! 1) of
                             Inl e \<Rightarrow> Inl e
                           | Inr ms \<Rightarrow> Inr (ps ! 0, ms))
                     else Inl ValueError)
            else Inr (hms, Fin 0)) of
        Inl e \<Rightarrow> Inl e
      | Inr (time_part, ms) \<Rightarrow>
          (let parts = split_on CHR '':'' time_part
           in if length parts = 3
              then (case py_int (parts ! 0) of Inl e \<Rightarrow> Inl e | Inr h \<Rightarrow>
                    (case py_int (parts ! 1) of Inl e \<Rightarrow> Inl e | Inr m \<Rightarrow>
                     (case py_int (parts ! 2) of Inl e \<Rightarrow> Inl e | Inr s \<Rightarrow>
                        int_add_float (h * 3600 + m * 60 + s) ms)))
              else if length parts = 2
              then (case py_int (parts ! 0) of Inl e \<Rightarrow> Inl e | Inr m \<Rightarrow>
                    (case py_int (parts ! 1) of Inl e \<Rightarrow> Inl e | Inr s \<Rightarrow>
                       int_add_float (m * 60 + s) ms))
              else (case parts of
                      [] \<Rightarrow> Inl ValueError
                    | p # _ \<Rightarrow>
                        (case py_int p of Inl e \<Rightarrow> Inl e | Inr s \<Rightarrow> int_add_float s ms))))"

definition main_validate_time_format :: "string \<Rightarrow> bool" where
  "main_validate_time_format time_str =
     (rm (Cat (Bol # time_body @ [Eol])) (0, time_str) \<noteq> [])"

section \<open>The segment pipeline (main.py)\<close>

text \<open>
  A diarized span and a transcript entry are the dictionaries of the source, with the
  keys \<open>speaker\<close>, \<open>text\<close>, \<open>start\<close> and \<open>end\<close>.
\<close>

record diar_segment =
  d_speaker :: string
  d_start :: pyfloat
  d_end :: pyfloat

record transcription =
  t_speaker :: string
  t_text :: string
  t_start :: pyfloat
  t_end :: pyfloat

text \<open>
  The collaborators that are not part of the sources, as parameters of a run: whether
  the trim primitive succeeds on (input, start, end, output), whether the download
  succeeds on (url, output), what the diarizer returns for a clip, and what loading a
  Whisper model gives: a failure, or the model, which maps an audio file to a failure
  or to the raw text.
\<close>

record world =
  trim_ok :: "string \<Rightarrow> string \<Rightarrow> string option \<Rightarrow> string \<Rightarrow> bool"
  download_ok :: "string \<Rightarrow> string \<Rightarrow> bool"
  run_diarization :: "string \<Rightarrow> error + diar_segment list"
  load_model :: "string \<Rightarrow> error + (string \<Rightarrow> error + string)"

text \<open>The file system is the set of the paths of the files that exist.\<close>

type_synonym files = "string set"

text \<open>
  Modelled from the spec: \<open>trim_audio\<close> of app/audio_processor.py, which is not among
  the sources. The trim primitive is a function over file paths; the callers test its
  result for truth, then read and delete the file it names. On success it writes the
  output path and returns it; on failure it returns \<open>None\<close> and writes nothing.
\<close>

definition trim_audio ::
  "world \<Rightarrow> files \<Rightarrow> string \<Rightarrow> string \<Rightarrow> string option \<Rightarrow> string \<Rightarrow> string option \<times> files" where
  "trim_audio w fs input_path start_time end_time output_path =
     (if trim_ok w input_path start_time end_time output_path
      then (Some output_path, insert output_path fs)
      else (None, fs))"

text \<open>
  Modelled from the spec: \<open>download_youtube_audio\<close> of app/audio_processor.py, with
  the same convention.
\<close>

definition download_youtube_audio ::
  "world \<Rightarrow> files \<Rightarrow> string \<Rightarrow> string \<Rightarrow> string option \<times> files" where
  "download_youtube_audio w fs url output_file =
     (if download_ok w url output_file
      then (Some output_file, insert output_file fs)
      else (None, fs))"

text \<open>The truth value of an optional string: \<open>None\<close> and the empty string are false.\<close>

definition truthy :: "string option \<Rightarrow> bool" where
  "truthy r = (case r of None \<Rightarrow> False | Some p \<Rightarrow> p \<noteq> [])"

text \<open>\<open>os.remove\<close>\<close>

definition os_remove :: "files \<Rightarrow> string \<Rightarrow> error + files" where
  "os_remove fs p = (if p \<in> fs then Inr (fs - {p}) else Inl FileNotFoundError)"

text \<open>\<open>os.path.join(temp_dir, name)\<close> for a relative name.\<close>

definition path_join :: "string \<Rightarrow> string \<Rightarrow> string" where
  "path_join d name = d @ ''/'' @ name"

text \<open>\<open>WhisperTranscriber.transcribe\<close> (app/transcriber.py).\<close>

definition transcribe :: "(string \<Rightarrow> error + string) \<Rightarrow> string \<Rightarrow> error + string" where
  "transcribe model audio_file =
     (case model audio_file of Inl e \<Rightarrow> Inl e | Inr txt \<Rightarrow> Inr (strip txt))"

definition segment_path :: "string \<Rightarrow> nat \<Rightarrow> string" where
  "segment_path temp_dir i = path_join temp_dir (''segment_'' @ show_nat i @ ''.wav'')"

text \<open>
  One iteration of the loop of \<open>process_audio\<close>: the transcript so far and the files,
  or the exception that leaves the loop, with the files at that moment.
\<close>

definition process_segment ::
  "world \<Rightarrow> (string \<Rightarrow> error + string) \<Rightarrow> string \<Rightarrow> string \<Rightarrow> nat \<Rightarrow> diar_segment \<Rightarrow>
     transcription list \<Rightarrow> files \<Rightarrow> (error + transcription list) \<times> files" where
  "process_segment w model temp_dir trimmed_file i segment acc fs =
     (case seconds_to_hms (d_start segment) of
        Inl e \<Rightarrow> (Inl e, fs)
      | Inr seg_start \<Rightarrow>
     (case seconds_to_hms (d_end segment) of
        Inl e \<Rightarrow> (Inl e, fs)
      | Inr seg_end \<Rightarrow>
     (case trim_audio w fs trimmed_file seg_start (Some seg_end) (segment_path temp_dir i) of
        (segment_file, fs1) \<Rightarrow>
          if truthy segment_file
          then (case segment_file of
                  None \<Rightarrow> (Inr acc, fs1)
                | Some f \<Rightarrow>
                    (case transcribe model f of
                       Inl e \<Rightarrow> (Inl e, fs1)
                     | Inr txt \<Rightarrow>
                         (case os_remove fs1 f of
                            Inl e \<Rightarrow> (Inl e, fs1)
                          | Inr fs2 \<Rightarrow>
                              (Inr (acc @
                                 [\<lparr>t_speaker = d_speaker segment, t_text = txt,
                                   t_start = d_start segment, t_end = d_end segment\<rparr>]), fs2))))
          else (Inr acc, fs1))))"

text \<open>The loop \<open>for i, segment in enumerate(diarization_segments)\<close>, from index \<open>i\<close>.\<close>

fun process_segments ::
  "world \<Rightarrow> (string \<Rightarrow> error + string) \<Rightarrow> string \<Rightarrow> string \<Rightarrow> nat \<Rightarrow> diar_segment list \<Rightarrow>
     transcription list \<Rightarrow> files \<Rightarrow> (error + transcription list) \<times> files" where
  "process_segments w model temp_dir trimmed_file i [] acc fs = (Inr acc, fs)"
| "process_segments w model temp_dir trimmed_file i (segment # rest) acc fs =
     (case process_segment w model temp_dir trimmed_file i segment acc fs of
        (Inl e, fs1) \<Rightarrow> (Inl e, fs1)
      | (Inr acc1, fs1) \<Rightarrow>
          process_segments w model temp_dir trimmed_file (Suc i) rest acc1 fs1)"

text \<open>
  \<open>process_audio\<close>; \<open>temp_dir\<close> is the directory that \<open>tempfile.mkdtemp()\<close> returns.
\<close>

definition process_audio ::
  "world \<Rightarrow> files \<Rightarrow> string \<Rightarrow> string \<Rightarrow> string \<Rightarrow> string option \<Rightarrow> string \<Rightarrow>
     (error + transcription list) \<times> files" where
  "process_audio w fs temp_dir file_path start_time end_time whisper_model =
     (case trim_audio w fs file_path start_time end_time (path_join temp_dir ''trimmed_audio.wav'') of
        (trimmed_file, fs1) \<Rightarrow>
          if \<not> truthy trimmed_file then (Inr [], fs1)
          else (case trimmed_file of
                  None \<Rightarrow> (Inr [], fs1)
                | Some trimmed \<Rightarrow>
                    (case run_diarization w trimmed of
                       Inl e \<Rightarrow> (Inl e, fs1)
                     | Inr diarization_segments \<Rightarrow>
                         (case load_model w whisper_model of
                            Inl e \<Rightarrow> (Inl e, fs1)
                          | Inr model \<Rightarrow>
                              (case process_segments w model temp_dir trimmed 0
                                      diarization_segments [] fs1 of
                                 (Inl e, fs2) \<Rightarrow> (Inl e, fs2)
                               | (Inr ts, fs2) \<Rightarrow>
                                   (case os_remove fs2 trimmed of
                                      Inl e \<Rightarrow> (Inl e, fs2)
                                    | Inr fs3 \<Rightarrow> (Inr ts, fs3)))))))"

text \<open>\<open>combine_transcriptions\<close>: the lines \<open>speaker: text\<close> joined by newlines.\<close>

fun join_lines :: "string list \<Rightarrow> string" where
  "join_lines [] = []"
| "join_lines [l] = l"
| "join_lines (l # ls) = l @ [CHR 0x0A] @ join_lines ls"

definition combine_transcriptions :: "transcription list \<Rightarrow> string" where
  "combine_transcriptions ts =
     join_lines (map (\<lambda>seg. t_speaker seg @ '': '' @ t_text seg) ts)"

text \<open>
  The state that \<open>transcribe_audio_source\<close> works on: the files, the three keys of
  \<open>st.session_state\<close>, and the messages shown by \<open>st.error\<close>, the latest last.
\<close>

record app =
  files :: files
  transcriptions :: "transcription list"
  transcript_text :: string
  llm_response :: string
  shown_errors :: "string list"

definition st_error :: "string \<Rightarrow> app \<Rightarrow> app" where
  "st_error msg a = a\<lparr>shown_errors := shown_errors a @ [msg]\<rparr>"

text \<open>
  \<open>transcribe_audio_source\<close>; \<open>temp_dir\<close> and \<open>temp_dir2\<close> are the directories of its own
  \<open>mkdtemp\<close> call and of the one in \<open>process_audio\<close>. It returns nothing: the result is
  the exception that escapes, if any, and the state.
\<close>

definition transcribe_audio_source ::
  "world \<Rightarrow> app \<Rightarrow> string \<Rightarrow> string \<Rightarrow> string \<Rightarrow> bool \<Rightarrow> string \<Rightarrow> string option \<Rightarrow> string \<Rightarrow>
     error option \<times> app" where
  "transcribe_audio_source w a temp_dir temp_dir2 audio_source is_youtube start_time end_time whisper_model =
     (case (if is_youtube
            then download_youtube_audio w (files a) audio_source (path_join temp_dir ''youtube_audio.wav'')
            else (Some audio_source, files a)) of
        (audio_file, fs1) \<Rightarrow>
          if is_youtube \<and> \<not> truthy audio_file
          then (None, st_error ''Failed to download audio from YouTube.'' (a\<lparr>files := fs1\<rparr>))
          else (case audio_file of
                  None \<Rightarrow> (None, st_error ''Failed to download audio from YouTube.'' (a\<lparr>files := fs1\<rparr>))
                | Some final_path \<Rightarrow>
                    (case process_audio w fs1 temp_dir2 final_path start_time end_time whisper_model of
                       (Inl e, fs2) \<Rightarrow> (Some e, a\<lparr>files := fs2\<rparr>)
                     | (Inr ts, fs2) \<Rightarrow>
                         if ts = []
                         then (None, st_error ''No transcriptions generated.'' (a\<lparr>files := fs2\<rparr>))
                         else (None, a\<lparr>files := fs2, transcriptions := ts,
                                       transcript_text := combine_transcriptions ts,
                                       llm_response := []\<rparr>))))"

section \<open>The query responder (app/llm_services.py)\<close>

text \<open>
  The language-model client is not part of the sources. A call either raises an
  exception, of which the message is kept, or returns a response: the contents of its
  choices, each of which may be \<open>None\<close>.
\<close>

datatype exception = Exception string

type_synonym message = "string \<times> string"

type_synonym llm_client = "string \<Rightarrow> message list \<Rightarrow> rat \<Rightarrow> exception + string option list"

definition system_prompt :: string where
  "system_prompt =
     ''You are a helpful assistant. You carefully follow the user'' @ [CHR 0x27] @
     ''s instructions and use any provided context. '' @
     ''If the context does not contain enough information to fully answer, state so politely. '' @
     ''Be concise and clear in your response.''"

definition user_prompt :: "string \<Rightarrow> string \<Rightarrow> string" where
  "user_prompt context question =
     [CHR 0x0A] @ ''    Context or conversation details:'' @ [CHR 0x0A] @
     ''    '' @ context @ [CHR 0x0A] @ [CHR 0x0A] @
     ''    User Instruction / Question:'' @ [CHR 0x0A] @
     ''    '' @ question @ [CHR 0x0A] @ [CHR 0x0A] @
     ''    Please follow the user'' @ [CHR 0x27] @
     ''s instructions as best as you can, using the above context if relevant.'' @ [CHR 0x0A] @
     ''    If the question cannot be answered from the context, respond accordingly.'' @ [CHR 0x0A] @
     ''    ''"

text \<open>
  The body of the \<open>try\<close> block: the call, then \<open>response.choices[0].message.content.strip()\<close>,
  which raises when there is no choice or no content.
\<close>

definition llm_attempt :: "llm_client \<Rightarrow> string \<Rightarrow> message list \<Rightarrow> rat \<Rightarrow> exception + string" where
  "llm_attempt client model_name messages temperature =
     (case client model_name messages temperature of
        Inl e \<Rightarrow> Inl e
      | Inr choices \<Rightarrow>
          (case choices of
             [] \<Rightarrow> Inl (Exception ''list index out of range'')
           | c # _ \<Rightarrow>
               (case c of
                  None \<Rightarrow>
                    Inl (Exception ([CHR 0x27] @ ''NoneType'' @ [CHR 0x27] @
                      '' object has no attribute '' @ [CHR 0x27] @ ''strip'' @ [CHR 0x27]))
                | Some content \<Rightarrow> Inr (strip content))))"

text \<open>\<open>answer_with_llm\<close>: the answer, and the messages shown by \<open>st.error\<close>.\<close>

definition answer_with_llm ::
  "llm_client \<Rightarrow> string \<Rightarrow> string \<Rightarrow> string \<Rightarrow> rat \<Rightarrow> string \<times> string list" where
  "answer_with_llm client context question model_name temperature =
     (let messages = [(''system'', system_prompt), (''user'', user_prompt context question)]
      in case llm_attempt client model_name messages temperature of
           Inr answer \<Rightarrow> (answer, [])
         | Inl (Exception msg) \<Rightarrow> (''LLM request failed.'', [''Error calling LLM: '' @ msg]))"

section \<open>What the specification expects of a run\<close>

text \<open>
  The sub-clip of span \<open>i\<close> is created when both ends of the span have a time code and
  the trim primitive succeeds on them.
\<close>

definition sub_clip_created :: "world \<Rightarrow> string \<Rightarrow> string \<Rightarrow> nat \<Rightarrow> diar_segment \<Rightarrow> bool" where
  "sub_clip_created w temp_dir trimmed i seg =
     (case seconds_to_hms (d_start seg) of
        Inl _ \<Rightarrow> False
      | Inr a \<Rightarrow>
          (case seconds_to_hms (d_end seg) of
             Inl _ \<Rightarrow> False
           | Inr b \<Rightarrow> trim_ok w trimmed a (Some b) (segment_path temp_dir i)))"

text \<open>
  The transcript the specification describes: one entry for each span whose sub-clip
  was created, in the order of the spans, counted from index \<open>i\<close>.
\<close>

fun expected_transcript ::
  "world \<Rightarrow> (string \<Rightarrow> error + string) \<Rightarrow> string \<Rightarrow> string \<Rightarrow> nat \<Rightarrow> diar_segment list \<Rightarrow>
     transcription list" where
  "expected_transcript w model temp_dir trimmed i [] = []"
| "expected_transcript w model temp_dir trimmed i (seg # rest) =
     (if sub_clip_created w temp_dir trimmed i seg
      then [\<lparr>t_speaker = d_speaker seg,
             t_text = (case transcribe model (segment_path temp_dir i) of Inl _ \<Rightarrow> [] | Inr txt \<Rightarrow> txt),
             t_start = d_start seg, t_end = d_end seg\<rparr>]
      else []) @ expected_transcript w model temp_dir trimmed (Suc i) rest"

text \<open>Worlds for the examples: three spans, the sub-clip of the second cannot be cut.\<close>

definition three_spans :: "diar_segment list" where
  "three_spans =
     [\<lparr>d_speaker = ''SPEAKER_00'', d_start = Fin 0, d_end = Fin (3 / 2)\<rparr>,
      \<lparr>d_speaker = ''SPEAKER_01'', d_start = Fin (3 / 2), d_end = Fin (9 / 4)\<rparr>,
      \<lparr>d_speaker = ''SPEAKER_00'', d_start = Fin (9 / 4), d_end = Fin 4\<rparr>]"

definition quiet_model :: "string \<Rightarrow> error + string" where
  "quiet_model audio_file = Inr '' hello ''"

definition world_trim2 :: world where
  "world_trim2 =
     \<lparr>trim_ok = (\<lambda>inp st en out. out \<noteq> ''/tmp/run/segment_1.wav''),
      download_ok = (\<lambda>url out. True),
      run_diarization = (\<lambda>clip. Inr three_spans),
      load_model = (\<lambda>name. Inr quiet_model)\<rparr>"

text \<open>The same spans, every trim succeeds, the engine fails on the second sub-clip.\<close>

definition faulty_model :: "string \<Rightarrow> error + string" where
  "faulty_model audio_file =
     (if audio_file = ''/tmp/run/segment_1.wav'' then Inl TranscriptionFailed else Inr '' hello '')"

definition world_fail2 :: world where
  "world_fail2 =
     \<lparr>trim_ok = (\<lambda>inp st en out. True),
      download_ok = (\<lambda>url out. True),
      run_diarization = (\<lambda>clip. Inr three_spans),
      load_model = (\<lambda>name. Inr faulty_model)\<rparr>"

text \<open>A diarizer that finds no span, and a trim primitive that always fails.\<close>

definition world_silent :: world where
  "world_silent =
     \<lparr>trim_ok = (\<lambda>inp st en out. True),
      download_ok = (\<lambda>url out. True),
      run_diarization = (\<lambda>clip. Inr []),
      load_model = (\<lambda>name. Inr quiet_model)\<rparr>"

definition world_no_trim :: world where
  "world_no_trim =
     \<lparr>trim_ok = (\<lambda>inp st en out. False),
      download_ok = (\<lambda>url out. True),
      run_diarization = (\<lambda>clip. Inr three_spans),
      load_model = (\<lambda>name. Inr quiet_model)\<rparr>"

definition fresh_app :: app where
  "fresh_app =
     \<lparr>files = {''/data/talk.wav''}, transcriptions = [], transcript_text = [],
      llm_response = [], shown_errors = []\<rparr>"

text \<open>Two language-model clients: one that times out, one that answers.\<close>

definition failing_client :: llm_client where
  "failing_client model_name messages temperature = Inl (Exception ''timeout'')"

definition answering_client :: llm_client where
  "answering_client model_name messages temperature = Inr [Some '' Two speakers. '']"

section \<open>Time codes as the specification describes them\<close>

text \<open>
  The text \<open>HH:MM:SS.mmm\<close> of given fields: hours padded to at least two digits,
  two digits of minutes and of seconds, three digits of milliseconds.
\<close>

definition two_digits :: "nat \<Rightarrow> string" where
  "two_digits n = [digit_char (n div 10), digit_char (n mod 10)]"

definition three_digits :: "nat \<Rightarrow> string" where
  "three_digits n = [digit_char (n div 100), digit_char (n div 10 mod 10), digit_char (n mod 10)]"

definition hms_text :: "nat \<Rightarrow> nat \<Rightarrow> nat \<Rightarrow> nat \<Rightarrow> string" where
  "hms_text h m s ms =
     zfill 2 (show_nat h) @ '':'' @ two_digits m @ '':'' @ two_digits s @ ''.'' @ three_digits ms"

text \<open>The whole hours, the whole minutes of the rest, and the seconds that are left.\<close>

definition hours_of :: "rat \<Rightarrow> int" where
  "hours_of x = \<lfloor>x / 3600\<rfloor>"

definition minutes_of :: "rat \<Rightarrow> int" where
  "minutes_of x = \<lfloor>(x - 3600 * of_int (hours_of x)) / 60\<rfloor>"

definition secs_of :: "rat \<Rightarrow> rat" where
  "secs_of x = x - 3600 * of_int (hours_of x) - 60 * of_int (minutes_of x)"

text \<open>
  The text the specification gives for a number of seconds: the fraction of the
  seconds truncated to milliseconds.
\<close>

definition spec_to_text :: "rat \<Rightarrow> string" where
  "spec_to_text x =
     hms_text (nat (hours_of x)) (nat (minutes_of x)) (nat \<lfloor>secs_of x\<rfloor>)
       (nat \<lfloor>1000 * (secs_of x - of_int \<lfloor>secs_of x\<rfloor>)\<rfloor>)"

text \<open>
  The same with the seconds rounded to the nearest millisecond, ties to even; the
  seconds field reads \<open>60.000\<close> when the rounding reaches the next minute.
\<close>

definition rounded_text :: "rat \<Rightarrow> string" where
  "rounded_text x =
     (let r = nat (round_half_even (1000 * secs_of x))
      in hms_text (nat (hours_of x)) (nat (minutes_of x)) (r div 1000) (r mod 1000))"

text \<open>A finite binary64 value: rounding leaves it as it is.\<close>

definition is_binary64 :: "rat \<Rightarrow> bool" where
  "is_binary64 x = (rd x = x)"

section \<open>The two copies of the time-code helpers\<close>

lemma split_on_nonempty: "split_on sep s \<noteq> []"
  by (induction s) (auto split: list.splits)

lemma main_split_eq:
  "(if CHR ''.'' \<in> set hms
    then (let ps = split_on CHR ''.'' hms
          in if length ps = 2
             then (case py_float (''0.'' @ ps ! 1) of
                     Inl e \<Rightarrow> Inl e
                   | Inr ms \<Rightarrow> Inr (ps ! 0, ms))
             else Inl ValueError)
    else Inr (hms, Fin 0)) = split_ms hms"
proof (cases "split_on CHR ''.'' hms")
  case Nil
  then show ?thesis by (simp add: split_on_nonempty)
next
  case (Cons a as)
  then show ?thesis
    by (cases as; cases "tl as") (auto simp: split_ms_def Let_def nth_Cons' split: sum.splits)
qed

lemma main_parts_eq:
  "(let parts = split_on CHR '':'' t
    in if length parts = 3
       then (case py_int (parts ! 0) of Inl e \<Rightarrow> Inl e | Inr h \<Rightarrow>
             (case py_int (parts ! 1) of Inl e \<Rightarrow> Inl e | Inr m \<Rightarrow>
              (case py_int (parts ! 2) of Inl e \<Rightarrow> Inl e | Inr s \<Rightarrow>
                 int_add_float (h * 3600 + m * 60 + s) ms)))
       else if length parts = 2
       then (case py_int (parts ! 0) of Inl e \<Rightarrow> Inl e | Inr m \<Rightarrow>
             (case py_int (parts ! 1) of Inl e \<Rightarrow> Inl e | Inr s \<Rightarrow>
                int_add_float (m * 60 + s) ms))
       else (case parts of
               [] \<Rightarrow> Inl ValueError
             | p # _ \<Rightarrow>
                 (case py_int p of Inl e \<Rightarrow> Inl e | Inr s \<Rightarrow> int_add_float s ms)))
   = (case split_on CHR '':'' t of
        [h, m, s] \<Rightarrow>
          (case py_int h of Inl e \<Rightarrow> Inl e | Inr hv \<Rightarrow>
           case py_int m of Inl e \<Rightarrow> Inl e | Inr mv \<Rightarrow>
           case py_int s of Inl e \<Rightarrow> Inl e | Inr sv \<Rightarrow>
             int_add_float (hv * 3600 + mv * 60 + sv) ms)
      | [m, s] \<Rightarrow>
          (case py_int m of Inl e \<Rightarrow> Inl e | Inr mv \<Rightarrow>
           case py_int s of Inl e \<Rightarrow> Inl e | Inr sv \<Rightarrow>
             int_add_float (mv * 60 + sv) ms)
      | parts \<Rightarrow>
          (case py_int (hd parts) of Inl e \<Rightarrow> Inl e | Inr sv \<Rightarrow> int_add_float sv ms))"
proof (cases "split_on CHR '':'' t")
  case Nil
  then show ?thesis by (simp add: split_on_nonempty)
next
  case (Cons a as)
  then show ?thesis
    by (cases as; cases "tl as"; cases "tl (tl as)") (auto simp: Let_def nth_Cons' split: sum.splits)
qed

text \<open>
  Claim C10. The helpers \<open>seconds_to_hms\<close>, \<open>hms_to_seconds\<close> and
  \<open>validate_time_format\<close> of main.py are extensionally equal to the functions of the
  same names in app/utils/time_utils.py: on every input each pair returns the same
  result and raises in the same cases.
\<close>

theorem main_copies_equal:
  "main_seconds_to_hms = seconds_to_hms \<and> main_hms_to_seconds = hms_to_seconds
     \<and> main_validate_time_format = validate_time_format"
proof (intro conjI ext)
  fix x show "main_seconds_to_hms x = seconds_to_hms x"
    by (simp add: main_seconds_to_hms_def seconds_to_hms_def)
next
  fix hms show "main_hms_to_seconds hms = hms_to_seconds hms"
    unfolding main_hms_to_seconds_def hms_to_seconds_def main_split_eq
    by (auto simp: main_parts_eq split: sum.splits)
next
  fix s show "main_validate_time_format s = validate_time_format s"
    by (simp add: main_validate_time_format_def validate_time_format_def re_match_def)
qed

section \<open>The query responder\<close>

text \<open>
  Claim C9. For every context and question, when the language-model call raises,
  \<open>answer_with_llm\<close> returns exactly the sentinel \<open>LLM request failed.\<close> and no
  exception leaves it; when the call succeeds it returns the text of the answer,
  stripped.
\<close>

theorem answer_with_llm_sentinel:
  "(\<forall>e. client model_name [(''system'', system_prompt), (''user'', user_prompt context question)] temperature = Inl e
      \<longrightarrow> fst (answer_with_llm client context question model_name temperature) = ''LLM request failed.'')
   \<and> (\<forall>content rest. client model_name [(''system'', system_prompt), (''user'', user_prompt context question)] temperature = Inr (Some content # rest)
      \<longrightarrow> answer_with_llm client context question model_name temperature = (strip content, []))"
  by (auto simp: answer_with_llm_def llm_attempt_def Let_def split: exception.splits)

theorem answer_with_llm_sentinel_witness:
  "fst (answer_with_llm failing_client ''A: hi'' ''Summarize'' ''m'' (3 / 4)) = ''LLM request failed.''
   \<and> answer_with_llm answering_client ''A: hi'' ''Summarize'' ''m'' (3 / 4) = (strip '' Two speakers. '', [])"
  using answer_with_llm_sentinel [of failing_client "''m''" "''A: hi''" "''Summarize''" "3 / 4"]
    answer_with_llm_sentinel [of answering_client "''m''" "''A: hi''" "''Summarize''" "3 / 4"]
  by (simp add: failing_client_def answering_client_def)

section \<open>Binary64 rounding\<close>

lemma two_powi_pos: "0 < (2::rat) powi k"
  by simp

lemma two_powi_mono: "a \<le> b \<Longrightarrow> (2::rat) powi a \<le> 2 powi b"
  by (rule power_int_increasing) simp_all

lemma two_powi_less_cancel: "(2::rat) powi a < 2 powi b \<Longrightarrow> a < b"
  by (rule ccontr) (use two_powi_mono [of b a] in simp)

lemma two_powi_add: "(2::rat) powi (a + b) = 2 powi a * 2 powi b"
  by (rule power_int_add) simp

lemma two_powi_diff: "(2::rat) powi (a - b) = 2 powi a / 2 powi b"
  by (rule power_int_diff) simp

lemma two_powi_nat: "0 \<le> a \<Longrightarrow> (2::rat) powi a = 2 ^ nat a"
  by (rule power_int_nonneg_exp)

lemma flog2_bounds:
  assumes "x \<noteq> 0"
  shows "2 powi flog2 x \<le> \<bar>x\<bar> \<and> \<bar>x\<bar> < 2 powi (flog2 x + 1)"
proof -
  obtain p q where pq: "quotient_of \<bar>x\<bar> = (p, q)"
    by (cases "quotient_of \<bar>x\<bar>")
  have qpos: "0 < q" using pq by (rule quotient_of_denom_pos)
  have xdiv: "\<bar>x\<bar> = of_int p / of_int q" using pq by (rule quotient_of_div)
  have xpos: "0 < \<bar>x\<bar>" using assms by simp
  have ppos: "0 < p"
    using xpos qpos unfolding xdiv by (simp add: zero_less_divide_iff)
  define a where "a = bitlen p"
  define b where "b = bitlen q"
  have a1: "1 \<le> a" using ppos by (simp add: a_def bitlen_alt_def)
  have b1: "1 \<le> b" using qpos by (simp add: b_def bitlen_alt_def)
  have pb: "2 ^ nat (a - 1) \<le> p" "p < 2 ^ nat a"
    using bitlen_bounds [OF ppos] by (simp_all add: a_def)
  have qb: "2 ^ nat (b - 1) \<le> q" "q < 2 ^ nat b"
    using bitlen_bounds [OF qpos] by (simp_all add: b_def)
  have pl: "(2::rat) powi (a - 1) \<le> of_int p"
  proof -
    have "(of_int (2 ^ nat (a - 1)) :: rat) \<le> of_int p" using pb(1) by (simp only: of_int_le_iff)
    then show ?thesis using a1 by (simp add: two_powi_nat)
  qed
  have pu: "(of_int p :: rat) < 2 powi a"
  proof -
    have "(of_int p :: rat) < of_int (2 ^ nat a)" using pb(2) by (simp only: of_int_less_iff)
    then show ?thesis using a1 by (simp add: two_powi_nat)
  qed
  have ql: "(2::rat) powi (b - 1) \<le> of_int q"
  proof -
    have "(of_int (2 ^ nat (b - 1)) :: rat) \<le> of_int q" using qb(1) by (simp only: of_int_le_iff)
    then show ?thesis using b1 by (simp add: two_powi_nat)
  qed
  have qu: "(of_int q :: rat) < 2 powi b"
  proof -
    have "(of_int q :: rat) < of_int (2 ^ nat b)" using qb(2) by (simp only: of_int_less_iff)
    then show ?thesis using b1 by (simp add: two_powi_nat)
  qed
  have qr: "0 < (of_int q :: rat)" using qpos by simp
  have pr: "0 < (of_int p :: rat)" using ppos by simp
  have upper: "\<bar>x\<bar> < 2 powi (a - b + 1)"
  proof -
    have "of_int p / of_int q \<le> of_int p / (2::rat) powi (b - 1)"
      using ql pr qr by (intro divide_left_mono) (simp_all add: less_imp_le)
    also have "\<dots> < 2 powi a / 2 powi (b - 1)"
      using pu by (intro divide_strict_right_mono) simp_all
    also have "\<dots> = 2 powi (a - (b - 1))" by (simp only: two_powi_diff)
    finally show ?thesis unfolding xdiv by (simp add: algebra_simps)
  qed
  have lower: "2 powi (a - b - 1) < \<bar>x\<bar>"
  proof -
    have "(2::rat) powi (a - b - 1) = 2 powi (a - 1) / 2 powi b"
      by (simp add: two_powi_diff [symmetric] algebra_simps)
    also have "\<dots> \<le> of_int p / 2 powi b"
      using pl by (intro divide_right_mono) simp_all
    also have "\<dots> < of_int p / of_int q"
      using qu qr pr by (intro divide_strict_left_mono) simp_all
    finally show ?thesis unfolding xdiv .
  qed
  have fl: "flog2 x = (if 2 powi (a - b) \<le> \<bar>x\<bar> then a - b else a - b - 1)"
    by (simp add: flog2_def pq a_def b_def Let_def)
  show ?thesis
  proof (cases "2 powi (a - b) \<le> \<bar>x\<bar>")
    case True
    then show ?thesis using upper fl by simp
  next
    case False
    then show ?thesis using lower fl by (simp add: less_imp_le)
  qed
qed

lemma flog2_less: "x \<noteq> 0 \<Longrightarrow> \<bar>x\<bar> < 2 powi k \<Longrightarrow> flog2 x < k"
  using flog2_bounds [of x] two_powi_less_cancel [of "flog2 x" k] by linarith

lemma rhe_of_int: "round_half_even (of_int k) = k"
  by (simp add: round_half_even_def)

lemma rhe_err: "\<bar>of_int (round_half_even y) - y\<bar> \<le> 1 / 2"
proof -
  have "of_int \<lfloor>y\<rfloor> \<le> y" "y < of_int \<lfloor>y\<rfloor> + 1" by linarith+
  then show ?thesis
    by (auto simp: round_half_even_def Let_def)
qed

lemma rhe_close:
  assumes "\<bar>y - of_int k\<bar> < 1 / 2"
  shows "round_half_even y = k"
proof -
  have "of_int k - 1 \<le> y" "y < of_int k + 1" using assms by linarith+
  then have "of_int (k - 1) \<le> y" "y < of_int (k + 1)" by simp_all
  then have "k - 1 \<le> \<lfloor>y\<rfloor>" "\<lfloor>y\<rfloor> < k + 1"
    by (simp_all only: le_floor_iff floor_less_iff)
  then have "\<lfloor>y\<rfloor> = k \<or> \<lfloor>y\<rfloor> = k - 1" by linarith
  then show ?thesis
  proof
    assume f: "\<lfloor>y\<rfloor> = k"
    have r: "y - of_int k < 1 / 2" using assms by linarith
    show ?thesis unfolding round_half_even_def Let_def f using r by simp
  next
    assume f: "\<lfloor>y\<rfloor> = k - 1"
    have r: "\<not> y - of_int (k - 1) < 1 / 2" "1 / 2 < y - of_int (k - 1)"
      using assms by (simp_all; linarith)+
    show ?thesis unfolding round_half_even_def Let_def f using r by simp
  qed
qed

lemma rhe_le: "y \<le> of_int k \<Longrightarrow> round_half_even y \<le> k"
proof -
  assume a: "y \<le> of_int k"
  then have f: "\<lfloor>y\<rfloor> \<le> k" by (simp add: floor_le_iff)
  show ?thesis
  proof (cases "\<lfloor>y\<rfloor> = k")
    case True
    then have "y = of_int k" using a by linarith
    then show ?thesis by (simp add: rhe_of_int)
  next
    case False
    with f have "\<lfloor>y\<rfloor> + 1 \<le> k" by simp
    then show ?thesis by (auto simp: round_half_even_def Let_def)
  qed
qed

lemma rhe_ge: "of_int k \<le> y \<Longrightarrow> k \<le> round_half_even y"
proof -
  assume a: "of_int k \<le> y"
  then have "k \<le> \<lfloor>y\<rfloor>" by (simp add: le_floor_iff)
  then show ?thesis by (auto simp: round_half_even_def Let_def)
qed

lemma rd_exact:
  assumes x: "x = of_int M * 2 powi q0" and M: "\<bar>M\<bar> < 2 ^ 53" and q0: "- 1074 \<le> q0"
  shows "rd x = x"
proof (cases "x = 0")
  case True
  then show ?thesis by (simp add: rd_def)
next
  case False
  define q where "q = max (flog2 x - 52) (- 1074)"
  have "\<bar>x\<bar> = of_int \<bar>M\<bar> * 2 powi q0" by (simp add: x abs_mult)
  also have "\<dots> < of_int (2 ^ 53) * 2 powi q0"
    using M by (intro mult_strict_right_mono) (simp_all only: of_int_less_iff two_powi_pos)
  also have "\<dots> = 2 powi (53 + q0)" by (simp add: two_powi_add)
  finally have "flog2 x < 53 + q0" using False by (intro flog2_less)
  then have qle: "q \<le> q0" using q0 by (simp add: q_def)
  have "x / 2 powi q = of_int M * 2 powi (q0 - q)" by (simp add: x two_powi_diff)
  also have "\<dots> = of_int (M * 2 ^ nat (q0 - q))" using qle by (simp add: two_powi_nat)
  finally have "round_half_even (x / 2 powi q) = M * 2 ^ nat (q0 - q)"
    by (simp only: rhe_of_int)
  then have "rd x = of_int (M * 2 ^ nat (q0 - q)) * 2 powi q"
    using False by (simp add: rd_def q_def Let_def)
  also have "\<dots> = of_int M * (2 powi (q0 - q) * 2 powi q)"
    using qle by (simp add: two_powi_nat)
  also have "\<dots> = x" by (simp add: x two_powi_add [symmetric])
  finally show ?thesis .
qed

lemma rd_of_int: "\<bar>k\<bar> < 2 ^ 53 \<Longrightarrow> rd (of_int k) = of_int k"
  by (rule rd_exact [where M = k and ?q0.0 = 0]) simp_all

lemma rd_err:
  assumes "\<bar>x\<bar> < 2 powi k" and "- 1021 \<le> k"
  shows "\<bar>rd x - x\<bar> \<le> 2 powi (k - 54)"
proof (cases "x = 0")
  case True
  then show ?thesis by (simp add: rd_def)
next
  case False
  define q where "q = max (flog2 x - 52) (- 1074)"
  have "flog2 x < k" using False assms(1) by (rule flog2_less)
  then have qle: "q \<le> k - 53" using assms(2) by (simp add: q_def)
  have rdx: "rd x = of_int (round_half_even (x / 2 powi q)) * 2 powi q"
    using False by (simp add: rd_def q_def Let_def)
  have "rd x - x = (of_int (round_half_even (x / 2 powi q)) - x / 2 powi q) * 2 powi q"
    by (simp add: rdx algebra_simps)
  then have "\<bar>rd x - x\<bar> = \<bar>of_int (round_half_even (x / 2 powi q)) - x / 2 powi q\<bar> * 2 powi q"
    by (simp add: abs_mult)
  also have "\<dots> \<le> 1 / 2 * 2 powi q"
    by (intro mult_right_mono rhe_err) simp
  also have "\<dots> = 2 powi (q - 1)" by (simp add: two_powi_diff)
  also have "\<dots> \<le> 2 powi (k - 54)" using qle by (intro two_powi_mono) simp
  finally show ?thesis .
qed

lemma rd_repr:
  assumes "x \<noteq> 0"
  shows "\<exists>M q. rd x = of_int M * 2 powi q \<and> \<bar>M\<bar> \<le> 2 ^ 53 \<and> - 1074 \<le> q \<and> flog2 x - 52 \<le> q
           \<and> of_int M = rd x / 2 powi q \<and> q = max (flog2 x - 52) (- 1074)"
proof -
  define q where "q = max (flog2 x - 52) (- 1074)"
  define M where "M = round_half_even (x / 2 powi q)"
  have rdx: "rd x = of_int M * 2 powi q"
    using assms by (simp add: rd_def q_def M_def Let_def)
  have "\<bar>x\<bar> < 2 powi (flog2 x + 1)" using flog2_bounds [OF assms] by simp
  also have "\<dots> \<le> 2 powi (53 + q)" by (intro two_powi_mono) (simp add: q_def)
  also have "\<dots> = 2 ^ 53 * 2 powi q" by (simp add: two_powi_add)
  finally have ax: "\<bar>x\<bar> < 2 ^ 53 * 2 powi q" .
  have "x < 2 ^ 53 * 2 powi q" using ax by linarith
  then have up: "x / 2 powi q \<le> of_int (2 ^ 53)" by (simp add: pos_divide_le_eq)
  have "- (2 ^ 53 * 2 powi q) < x" using ax by linarith
  then have "- (2 ^ 53) * 2 powi q < x" by simp
  then have lo: "of_int (- (2 ^ 53)) \<le> x / 2 powi q" by (simp add: pos_le_divide_eq)
  have "M \<le> 2 ^ 53" unfolding M_def using up by (rule rhe_le)
  moreover have "- (2 ^ 53) \<le> M" unfolding M_def using lo by (rule rhe_ge)
  ultimately have "\<bar>M\<bar> \<le> 2 ^ 53" by simp
  then show ?thesis using rdx by (intro exI [of _ M] exI [of _ q]) (simp add: q_def)
qed

lemma rd_idem: "rd (rd x) = rd x"
proof (cases "x = 0")
  case True
  then show ?thesis by (simp add: rd_def)
next
  case False
  from rd_repr [OF False] obtain M q where
    r: "rd x = of_int M * 2 powi q" and M: "\<bar>M\<bar> \<le> 2 ^ 53" and q: "- 1074 \<le> q"
    by blast
  show ?thesis
  proof (cases "\<bar>M\<bar> < 2 ^ 53")
    case True
    then show ?thesis using r q by (intro rd_exact [where M = M and ?q0.0 = q])
  next
    case False
    with M have "\<bar>M\<bar> = 2 ^ 53" by simp
    then have "M = 2 ^ 53 \<or> M = - (2 ^ 53)" by linarith
    then have "M = 2 * (M div 2)" "\<bar>M div 2\<bar> < 2 ^ 53" by auto
    then have "rd x = of_int (M div 2) * 2 powi (q + 1)"
      using r by (simp add: two_powi_add)
    then show ?thesis using \<open>\<bar>M div 2\<bar> < 2 ^ 53\<close> q
      by (intro rd_exact [where M = "M div 2" and ?q0.0 = "q + 1"]) simp_all
  qed
qed

lemma two53_le: "(2::rat) ^ 53 \<le> 2 ^ 1024"
  by (rule power_increasing) simp_all

lemma to_float_fin: "rd v = w \<Longrightarrow> \<bar>w\<bar> < 2 ^ 53 \<Longrightarrow> to_float v = Fin w"
  using two53_le by (auto simp: to_float_def Let_def)

lemma int_to_float_small: "\<bar>k\<bar> < 2 ^ 53 \<Longrightarrow> int_to_float k = Inr (of_int k)"
proof -
  assume k: "\<bar>k\<bar> < 2 ^ 53"
  then have "\<bar>of_int k :: rat\<bar> < of_int (2 ^ 53)"
    by (simp only: of_int_abs [symmetric] of_int_less_iff)
  then have "\<bar>of_int k :: rat\<bar> < 2 ^ 1024" using two53_le by simp
  then show ?thesis using k by (simp add: int_to_float_def rd_of_int Let_def)
qed

lemma rd_sub_int:
  assumes d: "rd x = x" and K: "0 \<le> K" and Kx: "of_int K \<le> x" and x53: "x < 2 ^ 53"
  shows "rd (x - of_int K) = x - of_int K"
proof (cases "x = 0")
  case True
  then have "K = 0" using K Kx by simp
  then show ?thesis using True by (simp add: rd_def)
next
  case False
  from rd_repr [OF False] obtain M q where
    r: "rd x = of_int M * 2 powi q" and q1: "- 1074 \<le> q" and q2: "q = max (flog2 x - 52) (- 1074)"
    by blast
  have x0: "0 \<le> x" using K Kx by (meson of_int_0_le_iff order_trans)
  have "\<bar>x\<bar> < 2 powi 53" using x53 x0 by simp
  then have fl: "flog2 x < 53" using False by (intro flog2_less)
  then have q0: "q \<le> 0" using q2 by simp
  define M' where "M' = M - K * 2 ^ nat (- q)"
  have Kq: "(of_int K :: rat) = of_int (K * 2 ^ nat (- q)) * 2 powi q"
  proof -
    have "(2::rat) ^ nat (- q) * 2 powi q = 2 powi (- q) * 2 powi q"
      using q0 by (simp add: two_powi_nat)
    also have "\<dots> = 1" by (simp add: two_powi_add [symmetric])
    finally show ?thesis by (simp add: mult.assoc)
  qed
  have xM: "x - of_int K = of_int M' * 2 powi q"
    using r d Kq by (simp add: M'_def algebra_simps)
  have "0 \<le> of_int M' * (2::rat) powi q" using Kx xM by simp
  then have "0 \<le> (of_int M' :: rat)"
    using two_powi_pos [of q] by (simp add: zero_le_mult_iff not_le)
  then have M0: "0 \<le> M'" by simp
  have "(0::rat) \<le> of_int K" using K by simp
  then have "of_int M' * (2::rat) powi q \<le> x" using xM by linarith
  also have "x < 2 powi (flog2 x + 1)" using flog2_bounds [OF False] x0 by simp
  also have "\<dots> \<le> 2 powi (53 + q)" by (intro two_powi_mono) (simp add: q2)
  also have "\<dots> = of_int (2 ^ 53) * 2 powi q" by (simp add: two_powi_add)
  finally have "(of_int M' :: rat) < of_int (2 ^ 53)" by (simp only: mult_less_cancel_right_pos two_powi_pos)
  then have "M' < 2 ^ 53" by (simp only: of_int_less_iff)
  then have "\<bar>M'\<bar> < 2 ^ 53" using M0 by simp
  then show ?thesis using xM q1 by (intro rd_exact [where M = M' and ?q0.0 = q])
qed

lemma float_divmod_exact:
  assumes x0: "0 \<le> x" and Y0: "0 < Y" and small: "\<lfloor>x / of_int Y\<rfloor> * Y < 2 ^ 53"
  shows "float_divmod x (of_int Y) = (of_int \<lfloor>x / of_int Y\<rfloor>, x - of_int Y * of_int \<lfloor>x / of_int Y\<rfloor>)"
proof -
  define n where "n = \<lfloor>x / of_int Y\<rfloor>"
  have Yr: "0 < (of_int Y :: rat)" using Y0 by simp
  have q0: "0 \<le> x / of_int Y" using x0 Yr by simp
  then have n0: "0 \<le> n" by (simp add: n_def)
  have tr: "trunc (x / of_int Y) = n" using q0 by (simp add: trunc_def n_def)
  have fm: "fmod x (of_int Y) = x - of_int Y * of_int n" by (simp add: fmod_def tr)
  have "of_int n \<le> x / of_int Y" by (simp add: n_def)
  then have "of_int n * of_int Y \<le> x" using Yr by (simp add: pos_le_divide_eq)
  then have m0: "0 \<le> x - of_int Y * of_int n" by (simp add: mult.commute)
  have nY: "\<bar>Y * n\<bar> < 2 ^ 53" using small n0 Y0 by (simp add: n_def mult.commute abs_mult)
  have "n \<le> Y * n" using n0 Y0 by (simp add: mult_le_cancel_right1)
  then have nn: "\<bar>n\<bar> < 2 ^ 53" using nY n0 by linarith
  have r1: "rd (x - (x - of_int Y * of_int n)) = of_int Y * of_int n"
    using rd_of_int [OF nY] by simp
  have r2: "rd (of_int Y * of_int n / of_int Y) = of_int n"
    using rd_of_int [OF nn] Yr by simp
  have nm: "\<not> ((of_int Y :: rat) < 0) \<noteq> (x - of_int Y * of_int n < 0)" using Yr m0 by simp
  show ?thesis
    unfolding float_divmod_def fm r1 r2 Let_def n_def [symmetric]
    using nm Yr m0 by (simp add: not_less)
qed

lemma float_divmod_3600:
  "0 \<le> x \<Longrightarrow> x < 2 ^ 53 \<Longrightarrow>
     float_divmod x 3600 = (of_int \<lfloor>x / 3600\<rfloor>, x - 3600 * of_int \<lfloor>x / 3600\<rfloor>)"
proof -
  assume x: "0 \<le> x" "x < 2 ^ 53"
  have "of_int \<lfloor>x / 3600\<rfloor> \<le> x / 3600" by (rule of_int_floor_le)
  then have "of_int (\<lfloor>x / 3600\<rfloor> * 3600) \<le> x" by (simp add: pos_le_divide_eq)
  then have "(of_int (\<lfloor>x / 3600\<rfloor> * 3600) :: rat) < of_int (2 ^ 53)" using x by simp
  then have "\<lfloor>x / 3600\<rfloor> * 3600 < 2 ^ 53" by (simp only: of_int_less_iff)
  then show ?thesis using float_divmod_exact [of x 3600] x by simp
qed

lemma float_divmod_60:
  "0 \<le> x \<Longrightarrow> x < 2 ^ 53 \<Longrightarrow>
     float_divmod x 60 = (of_int \<lfloor>x / 60\<rfloor>, x - 60 * of_int \<lfloor>x / 60\<rfloor>)"
proof -
  assume x: "0 \<le> x" "x < 2 ^ 53"
  have "of_int \<lfloor>x / 60\<rfloor> \<le> x / 60" by (rule of_int_floor_le)
  then have "of_int (\<lfloor>x / 60\<rfloor> * 60) \<le> x" by (simp add: pos_le_divide_eq)
  then have "(of_int (\<lfloor>x / 60\<rfloor> * 60) :: rat) < of_int (2 ^ 53)" using x by simp
  then have "\<lfloor>x / 60\<rfloor> * 60 < 2 ^ 53" by (simp only: of_int_less_iff)
  then show ?thesis using float_divmod_exact [of x 60] x by simp
qed

section \<open>The text of a number of seconds\<close>

lemma digit_char_0: "digit_char 0 = CHR ''0''"
  by code_simp

lemma show_nat_1: "n < 10 \<Longrightarrow> show_nat n = [digit_char n]"
  by (simp add: show_nat.simps)

lemma show_nat_2: "10 \<le> n \<Longrightarrow> n < 100 \<Longrightarrow> show_nat n = [digit_char (n div 10), digit_char (n mod 10)]"
  by (subst show_nat.simps) (simp add: show_nat_1)

lemma show_nat_3:
  "100 \<le> n \<Longrightarrow> n < 1000 \<Longrightarrow>
     show_nat n = [digit_char (n div 100), digit_char (n div 10 mod 10), digit_char (n mod 10)]"
  by (subst show_nat.simps) (simp add: show_nat_2 div_mult2_eq [symmetric])

lemma zfill_2_show_nat: "n < 100 \<Longrightarrow> zfill 2 (show_nat n) = two_digits n"
  by (cases "n < 10") (simp_all add: zfill_def two_digits_def show_nat_1 show_nat_2 digit_char_0)

lemma zfill_3_show_nat: "n < 1000 \<Longrightarrow> zfill 3 (show_nat n) = three_digits n"
proof -
  assume n: "n < 1000"
  consider "n < 10" | "10 \<le> n" "n < 100" | "100 \<le> n" by linarith
  then show ?thesis
  proof cases
    case 1
    then show ?thesis
      by (simp add: zfill_def three_digits_def show_nat_1 digit_char_0 numeral_3_eq_3)
  next
    case 2
    then show ?thesis
      by (simp add: zfill_def three_digits_def show_nat_2 digit_char_0)
  next
    case 3
    then show ?thesis using n
      by (simp add: zfill_def three_digits_def show_nat_3)
  qed
qed

lemma zfill_6_body:
  "a < 100 \<Longrightarrow> zfill 6 (show_nat a @ ''.'' @ three_digits b) = two_digits a @ ''.'' @ three_digits b"
  by (cases "a < 10")
    (simp_all add: zfill_def two_digits_def three_digits_def show_nat_1 show_nat_2 digit_char_0)

lemma fmt_02d_nonneg: "0 \<le> n \<Longrightarrow> fmt_02d n = zfill 2 (show_nat (nat n))"
  by (simp add: fmt_02d_def)

lemma fmt_06_3f_secs:
  assumes "0 \<le> s" and "s < 60"
  shows "fmt_06_3f (Fin s) =
           two_digits (nat (round_half_even (1000 * s)) div 1000) @ ''.'' @
           three_digits (nat (round_half_even (1000 * s)) mod 1000)"
proof -
  define r where "r = nat (round_half_even (1000 * s))"
  have "1000 * s \<le> of_int 60000" using assms by simp
  then have "round_half_even (1000 * s) \<le> 60000" by (rule rhe_le)
  then have r: "r \<le> 60000" by (simp add: r_def)
  then have a: "r div 1000 < 100" by simp
  have b: "r mod 1000 < 1000" by simp
  have abs: "\<bar>s\<bar> * 1000 = 1000 * s" using assms by simp
  have "fmt_06_3f (Fin s) = zfill 6 (show_nat (r div 1000) @ ''.'' @ zfill 3 (show_nat (r mod 1000)))"
    unfolding fmt_06_3f_def abs r_def using assms(1) by (simp add: Let_def not_less mult.commute)
  also have "\<dots> = two_digits (r div 1000) @ ''.'' @ three_digits (r mod 1000)"
    by (simp only: zfill_3_show_nat [OF b] zfill_6_body [OF a])
  finally show ?thesis unfolding r_def .
qed

lemma hours_nonneg: "0 \<le> x \<Longrightarrow> 0 \<le> hours_of x"
  by (simp add: hours_of_def)

lemma minutes_range:
  assumes "0 \<le> x"
  shows "0 \<le> minutes_of x \<and> minutes_of x < 60"
proof -
  have "of_int (hours_of x) \<le> x / 3600" "x / 3600 < of_int (hours_of x) + 1"
    unfolding hours_of_def by linarith+
  then have m: "0 \<le> x - 3600 * of_int (hours_of x)" "x - 3600 * of_int (hours_of x) < 3600"
    by (simp_all add: pos_le_divide_eq pos_divide_less_eq algebra_simps)
  then have "0 \<le> (x - 3600 * of_int (hours_of x)) / 60"
    "(x - 3600 * of_int (hours_of x)) / 60 < of_int 60" by simp_all
  then show ?thesis unfolding minutes_of_def by (simp only: zero_le_floor floor_less_iff)
qed

lemma rest_range:
  "0 \<le> x \<Longrightarrow> 0 \<le> x - 3600 * of_int (hours_of x) \<and> x - 3600 * of_int (hours_of x) < 3600"
proof -
  have "of_int (hours_of x) \<le> x / 3600" "x / 3600 < of_int (hours_of x) + 1"
    unfolding hours_of_def by linarith+
  then show ?thesis
    by (simp_all add: pos_le_divide_eq pos_divide_less_eq algebra_simps)
qed

lemma secs_range: "0 \<le> secs_of x \<and> secs_of x < 60"
proof -
  define y where "y = x - 3600 * of_int (hours_of x)"
  have "of_int (minutes_of x) \<le> y / 60" "y / 60 < of_int (minutes_of x) + 1"
    unfolding minutes_of_def y_def by linarith+
  then have "0 \<le> y - 60 * of_int (minutes_of x)" "y - 60 * of_int (minutes_of x) < 60"
    by (simp_all add: pos_le_divide_eq pos_divide_less_eq algebra_simps)
  then show ?thesis by (simp add: secs_of_def y_def)
qed

lemma seconds_to_hms_exact:
  assumes d: "is_binary64 x" and x0: "0 \<le> x" and x53: "x < 2 ^ 53"
  shows "seconds_to_hms (Fin x) = Inr (rounded_text x)"
proof -
  define h where "h = hours_of x"
  define y where "y = x - 3600 * of_int h"
  define m where "m = minutes_of x"
  define K where "K = h * 3600 + m * 60"
  have h0: "0 \<le> h" using x0 by (simp add: h_def hours_nonneg)
  have yr: "0 \<le> y" "y < 3600" using rest_range [OF x0] by (simp_all add: y_def h_def)
  have mr: "0 \<le> m" "m < 60" using minutes_range [OF x0] by (simp_all add: m_def)
  have sr: "0 \<le> secs_of x" "secs_of x < 60" using secs_range [of x] by simp_all
  have dm1: "float_divmod x 3600 = (of_int h, y)"
    using float_divmod_3600 [OF x0 x53] by (simp add: h_def y_def hours_of_def)
  have y53: "y < 2 ^ 53" using yr(2) by simp
  have dm2: "float_divmod y 60 = (of_int m, y - 60 * of_int m)"
    using float_divmod_60 [OF yr(1) y53] by (simp add: m_def minutes_of_def y_def h_def)
  have th: "trunc (of_int h) = h" using h0 by (simp add: trunc_def)
  have tm: "trunc (of_int m) = m" using mr by (simp add: trunc_def)
  have sK: "x - of_int K = secs_of x"
    by (simp add: secs_of_def K_def h_def m_def algebra_simps)
  have K0: "0 \<le> K" using h0 mr by (simp add: K_def)
  have Kx: "of_int K \<le> x" using sr(1) sK by linarith
  have "(of_int K :: rat) < of_int (2 ^ 53)" using Kx x53 by simp
  then have "K < 2 ^ 53" by (simp only: of_int_less_iff)
  then have K53: "\<bar>K\<bar> < 2 ^ 53" using K0 by simp
  have rdK: "rd (x - of_int K) = x - of_int K"
    using d K0 Kx x53 unfolding is_binary64_def by (rule rd_sub_int)
  have "\<bar>x - of_int K\<bar> < 2 ^ 53" using sr sK by simp
  then have tf: "to_float (x - of_int K) = Fin (secs_of x)"
    using rdK sK by (simp add: to_float_fin)
  have sub: "float_sub_int (Fin x) K = Inr (Fin (secs_of x))"
    using tf by (simp add: float_sub_int_def int_to_float_small [OF K53] fsub_def)
  have hn: "fmt_02d h = zfill 2 (show_nat (nat h))" using h0 by (rule fmt_02d_nonneg)
  have mn: "fmt_02d m = two_digits (nat m)"
    using mr by (simp add: fmt_02d_nonneg zfill_2_show_nat)
  show ?thesis
    unfolding seconds_to_hms_def
    by (simp add: float_floordiv_def float_mod_def dm1 dm2 th tm Let_def
        K_def [symmetric] sub hn mn fmt_06_3f_secs [OF sr] rounded_text_def hms_text_def
        h_def [symmetric] m_def [symmetric])
qed

section \<open>The loop of the segment pipeline\<close>

lemma segment_path_neq_trimmed:
  "segment_path d i \<noteq> path_join d ''trimmed_audio.wav''"
  by (simp add: segment_path_def path_join_def)

lemma segment_path_nonempty: "segment_path d i \<noteq> []"
  by (simp add: segment_path_def path_join_def)

lemma process_segment_created:
  assumes "sub_clip_created w d tr i seg" and "model (segment_path d i) = Inr raw"
  shows "process_segment w model d tr i seg acc fs =
           (Inr (acc @ [\<lparr>t_speaker = d_speaker seg, t_text = strip raw,
                          t_start = d_start seg, t_end = d_end seg\<rparr>]), fs - {segment_path d i})"
  using assms
  by (auto simp: process_segment_def sub_clip_created_def trim_audio_def truthy_def
        transcribe_def os_remove_def segment_path_nonempty split: sum.splits)

lemma process_segment_skipped:
  assumes "\<not> sub_clip_created w d tr i seg"
    and "seconds_to_hms (d_start seg) = Inr a" and "seconds_to_hms (d_end seg) = Inr b"
  shows "process_segment w model d tr i seg acc fs = (Inr acc, fs)"
  using assms
  by (auto simp: process_segment_def sub_clip_created_def trim_audio_def truthy_def)

lemma process_segment_failed:
  assumes "sub_clip_created w d tr i seg" and "model (segment_path d i) = Inl e"
  shows "process_segment w model d tr i seg acc fs = (Inl e, insert (segment_path d i) fs)"
  using assms
  by (auto simp: process_segment_def sub_clip_created_def trim_audio_def truthy_def
        transcribe_def segment_path_nonempty split: sum.splits)

lemma process_segment_files:
  assumes "process_segment w model d tr i seg acc fs = (Inr acc', fs')"
  shows "fs' \<subseteq> fs"
  using assms
  by (auto simp: process_segment_def trim_audio_def truthy_def os_remove_def
        segment_path_nonempty split: sum.splits if_splits option.splits)

lemma process_segment_keeps:
  assumes "process_segment w model d tr i seg acc fs = (r, fs')"
    and "p \<in> fs" and "p \<noteq> segment_path d i"
  shows "p \<in> fs'"
  using assms
  by (auto simp: process_segment_def trim_audio_def truthy_def os_remove_def
        split: sum.splits if_splits option.splits)

lemma process_segments_files:
  "process_segments w model d tr i segs acc fs = (Inr acc', fs') \<Longrightarrow> fs' \<subseteq> fs"
proof (induction segs arbitrary: i acc fs)
  case Nil
  then show ?case by simp
next
  case (Cons seg rest)
  obtain r fs1 where step: "process_segment w model d tr i seg acc fs = (r, fs1)"
    by (cases "process_segment w model d tr i seg acc fs")
  show ?case
  proof (cases r)
    case (Inl e)
    with Cons.prems step show ?thesis by simp
  next
    case (Inr acc1)
    with Cons.prems step
    have "process_segments w model d tr (Suc i) rest acc1 fs1 = (Inr acc', fs')" by simp
    then have "fs' \<subseteq> fs1" by (rule Cons.IH)
    moreover have "fs1 \<subseteq> fs" using step Inr by (auto dest: process_segment_files)
    ultimately show ?thesis by blast
  qed
qed

lemma process_segments_keeps:
  "process_segments w model d tr i segs acc fs = (r, fs') \<Longrightarrow>
     p \<in> fs \<Longrightarrow> (\<And>j. p \<noteq> segment_path d j) \<Longrightarrow> p \<in> fs'"
proof (induction segs arbitrary: i acc fs)
  case Nil
  then show ?case by simp
next
  case (Cons seg rest)
  obtain r1 fs1 where step: "process_segment w model d tr i seg acc fs = (r1, fs1)"
    by (cases "process_segment w model d tr i seg acc fs")
  have in1: "p \<in> fs1"
    using process_segment_keeps [OF step Cons.prems(2)] Cons.prems(3) by blast
  show ?case
  proof (cases r1)
    case (Inl e)
    with Cons.prems(1) step in1 show ?thesis by simp
  next
    case (Inr acc1)
    with Cons.prems(1) step
    have "process_segments w model d tr (Suc i) rest acc1 fs1 = (r, fs')" by simp
    then show ?thesis using in1 Cons.prems(3) by (rule Cons.IH)
  qed
qed

lemma process_segments_expected:
  assumes "\<forall>seg \<in> set segs. (\<exists>a. seconds_to_hms (d_start seg) = Inr a) \<and> (\<exists>b. seconds_to_hms (d_end seg) = Inr b)"
    and "\<forall>k < length segs. sub_clip_created w d tr (i + k) (segs ! k) \<longrightarrow> (\<exists>raw. model (segment_path d (i + k)) = Inr raw)"
  shows "fst (process_segments w model d tr i segs acc fs) = Inr (acc @ expected_transcript w model d tr i segs)"
  using assms
proof (induction segs arbitrary: i acc fs)
  case Nil
  then show ?case by simp
next
  case (Cons seg rest)
  from Cons.prems(1) obtain a b where
    ab: "seconds_to_hms (d_start seg) = Inr a" "seconds_to_hms (d_end seg) = Inr b"
    by auto
  have rest1: "\<forall>s \<in> set rest. (\<exists>a. seconds_to_hms (d_start s) = Inr a) \<and> (\<exists>b. seconds_to_hms (d_end s) = Inr b)"
    using Cons.prems(1) by simp
  have rest2: "\<forall>k < length rest. sub_clip_created w d tr (Suc i + k) (rest ! k) \<longrightarrow> (\<exists>raw. model (segment_path d (Suc i + k)) = Inr raw)"
  proof (intro allI impI)
    fix k assume "k < length rest" and c: "sub_clip_created w d tr (Suc i + k) (rest ! k)"
    then have "Suc k < length (seg # rest)" by simp
    with Cons.prems(2) c show "\<exists>raw. model (segment_path d (Suc i + k)) = Inr raw"
      by (metis add_Suc_shift nth_Cons_Suc)
  qed
  show ?case
  proof (cases "sub_clip_created w d tr i seg")
    case True
    with Cons.prems(2) obtain raw where raw: "model (segment_path d i) = Inr raw"
      by force
    show ?thesis
      using Cons.IH [OF rest1 rest2] True raw
      by (simp add: process_segment_created [where model = model and raw = raw] transcribe_def)
  next
    case False
    show ?thesis
      using Cons.IH [OF rest1 rest2] False
      by (simp add: process_segment_skipped [where a = a and b = b] ab)
  qed
qed

lemma process_segments_failure:
  assumes "\<forall>seg \<in> set segs. (\<exists>a. seconds_to_hms (d_start seg) = Inr a) \<and> (\<exists>b. seconds_to_hms (d_end seg) = Inr b)"
    and "k < length segs"
    and "sub_clip_created w d tr (i + k) (segs ! k)"
    and "model (segment_path d (i + k)) = Inl e"
    and "\<forall>j < k. sub_clip_created w d tr (i + j) (segs ! j) \<longrightarrow> (\<exists>raw. model (segment_path d (i + j)) = Inr raw)"
  shows "fst (process_segments w model d tr i segs acc fs) = Inl e
         \<and> segment_path d (i + k) \<in> snd (process_segments w model d tr i segs acc fs)"
  using assms
proof (induction segs arbitrary: i k acc fs)
  case Nil
  then show ?case by simp
next
  case (Cons seg rest)
  from Cons.prems(1) obtain a b where
    ab: "seconds_to_hms (d_start seg) = Inr a" "seconds_to_hms (d_end seg) = Inr b"
    by auto
  show ?case
  proof (cases k)
    case 0
    with Cons.prems(3,4) show ?thesis
      by (simp add: process_segment_failed [where model = model and e = e])
  next
    case (Suc k')
    have rest1: "\<forall>s \<in> set rest. (\<exists>a. seconds_to_hms (d_start s) = Inr a) \<and> (\<exists>b. seconds_to_hms (d_end s) = Inr b)"
      using Cons.prems(1) by simp
    have k': "k' < length rest" using Cons.prems(2) Suc by simp
    have c: "sub_clip_created w d tr (Suc i + k') (rest ! k')"
      using Cons.prems(3) Suc by simp
    have f: "model (segment_path d (Suc i + k')) = Inl e"
      using Cons.prems(4) Suc by simp
    have before: "\<forall>j < k'. sub_clip_created w d tr (Suc i + j) (rest ! j) \<longrightarrow> (\<exists>raw. model (segment_path d (Suc i + j)) = Inr raw)"
    proof (intro allI impI)
      fix j assume "j < k'" and cj: "sub_clip_created w d tr (Suc i + j) (rest ! j)"
      then have "Suc j < k" using Suc by simp
      with Cons.prems(5) cj show "\<exists>raw. model (segment_path d (Suc i + j)) = Inr raw"
        by (metis add_Suc_shift nth_Cons_Suc)
    qed
    note IH = Cons.IH [OF rest1 k' c f before]
    have first: "sub_clip_created w d tr i seg \<longrightarrow> (\<exists>raw. model (segment_path d i) = Inr raw)"
      using Cons.prems(5) Suc by force
    show ?thesis
    proof (cases "sub_clip_created w d tr i seg")
      case True
      with first obtain raw where raw: "model (segment_path d i) = Inr raw" by blast
      show ?thesis using IH Suc
        by (simp add: process_segment_created [where model = model and raw = raw] True raw)
    next
      case False
      show ?thesis using IH Suc
        by (simp add: process_segment_skipped [where a = a and b = b] False ab)
    qed
  qed
qed

lemma trimmed_nonempty: "path_join d ''trimmed_audio.wav'' \<noteq> []"
  by (simp add: path_join_def)

lemma process_audio_expected:
  assumes "trim_ok w file_path start_time end_time (path_join d ''trimmed_audio.wav'')"
    and "run_diarization w (path_join d ''trimmed_audio.wav'') = Inr segs"
    and "load_model w whisper_model = Inr model"
    and "\<forall>seg \<in> set segs. (\<exists>a. seconds_to_hms (d_start seg) = Inr a) \<and> (\<exists>b. seconds_to_hms (d_end seg) = Inr b)"
    and "\<forall>k < length segs. sub_clip_created w d (path_join d ''trimmed_audio.wav'') k (segs ! k)
           \<longrightarrow> (\<exists>raw. model (segment_path d k) = Inr raw)"
  shows "fst (process_audio w fs d file_path start_time end_time whisper_model)
           = Inr (expected_transcript w model d (path_join d ''trimmed_audio.wav'') 0 segs)"
proof -
  let ?tr = "path_join d ''trimmed_audio.wav''"
  obtain r fs2 where loop: "process_segments w model d ?tr 0 segs [] (insert ?tr fs) = (r, fs2)"
    by (cases "process_segments w model d ?tr 0 segs [] (insert ?tr fs)")
  have "fst (process_segments w model d ?tr 0 segs [] (insert ?tr fs))
          = Inr ([] @ expected_transcript w model d ?tr 0 segs)"
    using assms(4,5) by (intro process_segments_expected) simp_all
  then have r: "r = Inr (expected_transcript w model d ?tr 0 segs)" using loop by simp
  have "?tr \<in> fs2"
    using loop by (rule process_segments_keeps) (simp_all add: segment_path_neq_trimmed [symmetric])
  then show ?thesis
    using assms(1-3) loop r
    by (simp add: process_audio_def trim_audio_def truthy_def trimmed_nonempty os_remove_def)
qed

lemma process_audio_failure:
  assumes "trim_ok w file_path start_time end_time (path_join d ''trimmed_audio.wav'')"
    and "run_diarization w (path_join d ''trimmed_audio.wav'') = Inr segs"
    and "load_model w whisper_model = Inr model"
    and "\<forall>seg \<in> set segs. (\<exists>a. seconds_to_hms (d_start seg) = Inr a) \<and> (\<exists>b. seconds_to_hms (d_end seg) = Inr b)"
    and "k < length segs"
    and "sub_clip_created w d (path_join d ''trimmed_audio.wav'') k (segs ! k)"
    and "model (segment_path d k) = Inl e"
    and "\<forall>j < k. sub_clip_created w d (path_join d ''trimmed_audio.wav'') j (segs ! j)
           \<longrightarrow> (\<exists>raw. model (segment_path d j) = Inr raw)"
  shows "fst (process_audio w fs d file_path start_time end_time whisper_model) = Inl e
         \<and> segment_path d k \<in> snd (process_audio w fs d file_path start_time end_time whisper_model)
         \<and> path_join d ''trimmed_audio.wav'' \<in> snd (process_audio w fs d file_path start_time end_time whisper_model)"
proof -
  let ?tr = "path_join d ''trimmed_audio.wav''"
  obtain r fs2 where loop: "process_segments w model d ?tr 0 segs [] (insert ?tr fs) = (r, fs2)"
    by (cases "process_segments w model d ?tr 0 segs [] (insert ?tr fs)")
  have "fst (process_segments w model d ?tr 0 segs [] (insert ?tr fs)) = Inl e
        \<and> segment_path d (0 + k) \<in> snd (process_segments w model d ?tr 0 segs [] (insert ?tr fs))"
    using assms(4-8) by (intro process_segments_failure) simp_all
  then have r: "r = Inl e" "segment_path d k \<in> fs2" using loop by simp_all
  have "?tr \<in> fs2"
    using loop by (rule process_segments_keeps) (simp_all add: segment_path_neq_trimmed [symmetric])
  then show ?thesis
    using assms(1-3) loop r
    by (simp add: process_audio_def trim_audio_def truthy_def trimmed_nonempty)
qed

lemma process_audio_files:
  assumes "fst (process_audio w fs d file_path start_time end_time whisper_model) = Inr ts"
  shows "snd (process_audio w fs d file_path start_time end_time whisper_model) \<subseteq> fs"
proof (cases "trim_ok w file_path start_time end_time (path_join d ''trimmed_audio.wav'')")
  case False
  then show ?thesis by (simp add: process_audio_def trim_audio_def truthy_def)
next
  case True
  let ?tr = "path_join d ''trimmed_audio.wav''"
  show ?thesis
  proof (cases "run_diarization w ?tr")
    case (Inl e)
    with True assms show ?thesis
      by (simp add: process_audio_def trim_audio_def truthy_def trimmed_nonempty)
  next
    case (Inr segs)
    show ?thesis
    proof (cases "load_model w whisper_model")
      case (Inl e)
      with True Inr assms show ?thesis
        by (simp add: process_audio_def trim_audio_def truthy_def trimmed_nonempty)
    next
      case model: (Inr model)
      obtain r fs2 where loop: "process_segments w model d ?tr 0 segs [] (insert ?tr fs) = (r, fs2)"
        by (cases "process_segments w model d ?tr 0 segs [] (insert ?tr fs)")
      show ?thesis
      proof (cases r)
        case (Inl e)
        with True Inr model loop assms show ?thesis
          by (simp add: process_audio_def trim_audio_def truthy_def trimmed_nonempty)
      next
        case ts: (Inr ts')
        have "fs2 \<subseteq> insert ?tr fs" using loop ts by (auto dest: process_segments_files)
        then show ?thesis
          using True Inr model loop ts assms
          by (auto simp: process_audio_def trim_audio_def truthy_def trimmed_nonempty os_remove_def
              split: if_splits)
      qed
    qed
  qed
qed

lemma process_audio_silent:
  assumes "trim_ok w file_path start_time end_time (path_join d ''trimmed_audio.wav'')"
    and "run_diarization w (path_join d ''trimmed_audio.wav'') = Inr []"
    and "load_model w whisper_model = Inr model"
  shows "process_audio w fs d file_path start_time end_time whisper_model
           = (Inr [], fs - {path_join d ''trimmed_audio.wav''})"
  using assms
  by (simp add: process_audio_def trim_audio_def truthy_def trimmed_nonempty os_remove_def)

lemma process_audio_no_trim:
  assumes "\<not> trim_ok w file_path start_time end_time (path_join d ''trimmed_audio.wav'')"
  shows "process_audio w fs d file_path start_time end_time whisper_model = (Inr [], fs)"
  using assms by (simp add: process_audio_def trim_audio_def truthy_def)

section \<open>Runs of the segment pipeline\<close>

lemma binary64_examples:
  "is_binary64 0" "is_binary64 (3 / 2)" "is_binary64 (9 / 4)" "is_binary64 4"
  unfolding is_binary64_def
  using rd_exact [where M = 0 and ?q0.0 = 0 and x = 0]
    rd_exact [where M = 3 and ?q0.0 = "- 1" and x = "3 / 2"]
    rd_exact [where M = 9 and ?q0.0 = "- 2" and x = "9 / 4"]
    rd_exact [where M = 4 and ?q0.0 = 0 and x = 4]
  by simp_all

lemma three_spans_time_codes:
  "\<forall>seg \<in> set three_spans.
     (\<exists>a. seconds_to_hms (d_start seg) = Inr a) \<and> (\<exists>b. seconds_to_hms (d_end seg) = Inr b)"
  by (simp add: three_spans_def seconds_to_hms_exact binary64_examples)

lemma segment_paths:
  "segment_path ''/tmp/run'' 0 = ''/tmp/run/segment_0.wav''"
  "segment_path ''/tmp/run'' (Suc 0) = ''/tmp/run/segment_1.wav''"
  "segment_path ''/tmp/run'' (Suc (Suc 0)) = ''/tmp/run/segment_2.wav''"
  by code_simp+

lemma trimmed_path: "path_join ''/tmp/run'' ''trimmed_audio.wav'' = ''/tmp/run/trimmed_audio.wav''"
  by (simp add: path_join_def)

lemma strip_hello: "strip '' hello '' = ''hello''"
  by code_simp

lemma created_trim2:
  "sub_clip_created world_trim2 ''/tmp/run'' tr 0 (three_spans ! 0)"
  "\<not> sub_clip_created world_trim2 ''/tmp/run'' tr (Suc 0) (three_spans ! Suc 0)"
  "sub_clip_created world_trim2 ''/tmp/run'' tr (Suc (Suc 0)) (three_spans ! Suc (Suc 0))"
  by (simp_all add: sub_clip_created_def three_spans_def seconds_to_hms_exact binary64_examples
      world_trim2_def segment_paths)

lemma created_fail2:
  "sub_clip_created world_fail2 ''/tmp/run'' tr i (three_spans ! 0)"
  "sub_clip_created world_fail2 ''/tmp/run'' tr i (three_spans ! Suc 0)"
  by (simp_all add: sub_clip_created_def three_spans_def seconds_to_hms_exact binary64_examples
      world_fail2_def)

text \<open>
  Claim C1. Skip-and-continue on sub-clip trim failures, in diarization order: when the
  main clip is cut, the diarizer returns spans and every transcription of a created
  sub-clip succeeds, \<open>process_audio\<close> returns the transcript that has exactly one
  entry for each span whose sub-clip was created, in the order of the spans.
\<close>

theorem process_audio_skips_failed_trims:
  assumes "trim_ok w file_path start_time end_time (path_join d ''trimmed_audio.wav'')"
    and "run_diarization w (path_join d ''trimmed_audio.wav'') = Inr segs"
    and "load_model w whisper_model = Inr model"
    and "\<forall>seg \<in> set segs. (\<exists>a. seconds_to_hms (d_start seg) = Inr a) \<and> (\<exists>b. seconds_to_hms (d_end seg) = Inr b)"
    and "\<forall>k < length segs. sub_clip_created w d (path_join d ''trimmed_audio.wav'') k (segs ! k)
           \<longrightarrow> (\<exists>raw. model (segment_path d k) = Inr raw)"
  shows "fst (process_audio w fs d file_path start_time end_time whisper_model)
           = Inr (expected_transcript w model d (path_join d ''trimmed_audio.wav'') 0 segs)"
  using assms by (rule process_audio_expected)

text \<open>
  Three spans, the trim of the second fails: two entries, for the first and the third
  span, in that order.
\<close>

theorem process_audio_skips_failed_trims_witness:
  "fst (process_audio world_trim2 {''/data/talk.wav''} ''/tmp/run'' ''/data/talk.wav''
          ''00:00:00'' (Some ''00:00:30'') ''base'')
     = Inr [\<lparr>t_speaker = ''SPEAKER_00'', t_text = ''hello'', t_start = Fin 0, t_end = Fin (3 / 2)\<rparr>,
            \<lparr>t_speaker = ''SPEAKER_00'', t_text = ''hello'', t_start = Fin (9 / 4), t_end = Fin 4\<rparr>]"
proof -
  have h1: "trim_ok world_trim2 ''/data/talk.wav'' ''00:00:00'' (Some ''00:00:30'')
              (path_join ''/tmp/run'' ''trimmed_audio.wav'')"
    by (simp add: world_trim2_def trimmed_path)
  have h2: "run_diarization world_trim2 (path_join ''/tmp/run'' ''trimmed_audio.wav'') = Inr three_spans"
    by (simp add: world_trim2_def)
  have h3: "load_model world_trim2 ''base'' = Inr quiet_model"
    by (simp add: world_trim2_def)
  have h5: "\<forall>k < length three_spans.
              sub_clip_created world_trim2 ''/tmp/run'' (path_join ''/tmp/run'' ''trimmed_audio.wav'') k (three_spans ! k)
                \<longrightarrow> (\<exists>raw. quiet_model (segment_path ''/tmp/run'' k) = Inr raw)"
    by (simp add: quiet_model_def)
  have e: "expected_transcript world_trim2 quiet_model ''/tmp/run'' tr 0 three_spans
             = [\<lparr>t_speaker = ''SPEAKER_00'', t_text = ''hello'', t_start = Fin 0, t_end = Fin (3 / 2)\<rparr>,
                \<lparr>t_speaker = ''SPEAKER_00'', t_text = ''hello'', t_start = Fin (9 / 4), t_end = Fin 4\<rparr>]" for tr
    using created_trim2 [of tr]
    by (simp add: three_spans_def transcribe_def quiet_model_def strip_hello)
  show ?thesis
    using process_audio_skips_failed_trims [OF h1 h2 h3 three_spans_time_codes h5, of "{''/data/talk.wav''}"]
    by (simp only: e)
qed

lemma fail2_run:
  "fst (process_audio world_fail2 {''/data/talk.wav''} ''/tmp/run'' ''/data/talk.wav''
          ''00:00:00'' (Some ''00:00:30'') ''base'') = Inl TranscriptionFailed
   \<and> segment_path ''/tmp/run'' (Suc 0) \<in> snd (process_audio world_fail2 {''/data/talk.wav''} ''/tmp/run'' ''/data/talk.wav''
          ''00:00:00'' (Some ''00:00:30'') ''base'')
   \<and> path_join ''/tmp/run'' ''trimmed_audio.wav'' \<in> snd (process_audio world_fail2 {''/data/talk.wav''} ''/tmp/run'' ''/data/talk.wav''
          ''00:00:00'' (Some ''00:00:30'') ''base'')"
proof (rule process_audio_failure [where segs = three_spans and model = faulty_model])
  show "trim_ok world_fail2 ''/data/talk.wav'' ''00:00:00'' (Some ''00:00:30'')
          (path_join ''/tmp/run'' ''trimmed_audio.wav'')"
    by (simp add: world_fail2_def)
  show "run_diarization world_fail2 (path_join ''/tmp/run'' ''trimmed_audio.wav'') = Inr three_spans"
    by (simp add: world_fail2_def)
  show "load_model world_fail2 ''base'' = Inr faulty_model"
    by (simp add: world_fail2_def)
  show "\<forall>seg \<in> set three_spans.
     (\<exists>a. seconds_to_hms (d_start seg) = Inr a) \<and> (\<exists>b. seconds_to_hms (d_end seg) = Inr b)"
    by (rule three_spans_time_codes)
  show "Suc 0 < length three_spans" by (simp add: three_spans_def)
  show "sub_clip_created world_fail2 ''/tmp/run'' (path_join ''/tmp/run'' ''trimmed_audio.wav'')
          (Suc 0) (three_spans ! Suc 0)"
    by (rule created_fail2)
  show "faulty_model (segment_path ''/tmp/run'' (Suc 0)) = Inl TranscriptionFailed"
    by (simp add: faulty_model_def segment_paths)
  show "\<forall>j<Suc 0. sub_clip_created world_fail2 ''/tmp/run'' (path_join ''/tmp/run'' ''trimmed_audio.wav'') j (three_spans ! j)
          \<longrightarrow> (\<exists>raw. faulty_model (segment_path ''/tmp/run'' j) = Inr raw)"
    by (simp add: faulty_model_def segment_paths)
qed

text \<open>
  Claim C2, as amended. A failure of the transcription on a span's sub-clip is not
  recovered: it leaves \<open>process_audio\<close>, which returns no transcript. The run ends
  with the failure of the first span whose transcription fails.
\<close>

theorem transcription_failure_aborts:
  assumes "trim_ok w file_path start_time end_time (path_join d ''trimmed_audio.wav'')"
    and "run_diarization w (path_join d ''trimmed_audio.wav'') = Inr segs"
    and "load_model w whisper_model = Inr model"
    and "\<forall>seg \<in> set segs. (\<exists>a. seconds_to_hms (d_start seg) = Inr a) \<and> (\<exists>b. seconds_to_hms (d_end seg) = Inr b)"
    and "k < length segs"
    and "sub_clip_created w d (path_join d ''trimmed_audio.wav'') k (segs ! k)"
    and "model (segment_path d k) = Inl e"
    and "\<forall>j < k. sub_clip_created w d (path_join d ''trimmed_audio.wav'') j (segs ! j)
           \<longrightarrow> (\<exists>raw. model (segment_path d j) = Inr raw)"
  shows "fst (process_audio w fs d file_path start_time end_time whisper_model) = Inl e"
  using process_audio_failure [OF assms] by simp

theorem transcription_failure_aborts_witness:
  "fst (process_audio world_fail2 {} ''/tmp/run'' ''/data/talk.wav''
          ''00:00:00'' None ''tiny'') = Inl TranscriptionFailed"
proof (rule transcription_failure_aborts [where segs = three_spans and model = faulty_model and k = "Suc 0"])
  show "trim_ok world_fail2 ''/data/talk.wav'' ''00:00:00'' None
          (path_join ''/tmp/run'' ''trimmed_audio.wav'')"
    by (simp add: world_fail2_def)
  show "run_diarization world_fail2 (path_join ''/tmp/run'' ''trimmed_audio.wav'') = Inr three_spans"
    by (simp add: world_fail2_def)
  show "load_model world_fail2 ''tiny'' = Inr faulty_model"
    by (simp add: world_fail2_def)
  show "\<forall>seg \<in> set three_spans.
     (\<exists>a. seconds_to_hms (d_start seg) = Inr a) \<and> (\<exists>b. seconds_to_hms (d_end seg) = Inr b)"
    by (rule three_spans_time_codes)
  show "Suc 0 < length three_spans" by (simp add: three_spans_def)
  show "sub_clip_created world_fail2 ''/tmp/run'' (path_join ''/tmp/run'' ''trimmed_audio.wav'')
          (Suc 0) (three_spans ! Suc 0)"
    by (rule created_fail2)
  show "faulty_model (segment_path ''/tmp/run'' (Suc 0)) = Inl TranscriptionFailed"
    by (simp add: faulty_model_def segment_paths)
  show "\<forall>j<Suc 0. sub_clip_created world_fail2 ''/tmp/run'' (path_join ''/tmp/run'' ''trimmed_audio.wav'') j (three_spans ! j)
          \<longrightarrow> (\<exists>raw. faulty_model (segment_path ''/tmp/run'' j) = Inr raw)"
    by (simp add: faulty_model_def segment_paths)
qed

text \<open>
  Claim C2 as stated fails: the engine fails on the second of three sub-clips, and the
  run returns no transcript at all.
\<close>

theorem transcription_failure_counterexample:
  "\<not> (\<exists>ts. fst (process_audio world_fail2 {''/data/talk.wav''} ''/tmp/run'' ''/data/talk.wav''
          ''00:00:00'' (Some ''00:00:30'') ''base'') = Inr ts)"
  using fail2_run by simp

text \<open>
  Claim C4 as stated fails on the path of a transcription failure: the sub-clip of the
  failing span and the trimmed main clip are still there when the run ends.
\<close>

theorem leftover_clips_counterexample:
  "''/tmp/run/segment_1.wav'' \<in> snd (process_audio world_fail2 {''/data/talk.wav''} ''/tmp/run''
       ''/data/talk.wav'' ''00:00:00'' (Some ''00:00:30'') ''base'')
   \<and> ''/tmp/run/trimmed_audio.wav'' \<in> snd (process_audio world_fail2 {''/data/talk.wav''} ''/tmp/run''
       ''/data/talk.wav'' ''00:00:00'' (Some ''00:00:30'') ''base'')"
  using fail2_run by (simp add: segment_paths trimmed_path)

text \<open>
  Claim C4, as amended. When a run returns a transcript, no file that it created
  remains: the files after the run are among the files before it. Each iteration that
  completes leaves no file behind either, so a sub-clip is removed within its own
  iteration, and a failed trim of a span creates none.
\<close>

theorem temporary_clips_removed:
  "(fst (process_audio w fs d file_path start_time end_time whisper_model) = Inr ts
      \<longrightarrow> snd (process_audio w fs d file_path start_time end_time whisper_model) \<subseteq> fs)
   \<and> (fst (process_segment w model d trimmed i seg acc fs) = Inr acc'
      \<longrightarrow> snd (process_segment w model d trimmed i seg acc fs) \<subseteq> fs)"
proof (intro conjI impI)
  assume "fst (process_audio w fs d file_path start_time end_time whisper_model) = Inr ts"
  then show "snd (process_audio w fs d file_path start_time end_time whisper_model) \<subseteq> fs"
    by (rule process_audio_files)
next
  assume a: "fst (process_segment w model d trimmed i seg acc fs) = Inr acc'"
  have "process_segment w model d trimmed i seg acc fs
          = (Inr acc', snd (process_segment w model d trimmed i seg acc fs))"
    using a by (metis prod.collapse)
  then show "snd (process_segment w model d trimmed i seg acc fs) \<subseteq> fs"
    by (rule process_segment_files)
qed

lemma trim2_run:
  "fst (process_audio world_trim2 {''/data/talk.wav''} ''/tmp/run'' ''/data/talk.wav''
          ''00:00:00'' (Some ''00:00:30'') ''base'')
     = Inr (expected_transcript world_trim2 quiet_model ''/tmp/run''
              (path_join ''/tmp/run'' ''trimmed_audio.wav'') 0 three_spans)"
proof (rule process_audio_expected)
  show "trim_ok world_trim2 ''/data/talk.wav'' ''00:00:00'' (Some ''00:00:30'')
              (path_join ''/tmp/run'' ''trimmed_audio.wav'')"
    by (simp add: world_trim2_def trimmed_path)
  show "run_diarization world_trim2 (path_join ''/tmp/run'' ''trimmed_audio.wav'') = Inr three_spans"
    by (simp add: world_trim2_def)
  show "load_model world_trim2 ''base'' = Inr quiet_model"
    by (simp add: world_trim2_def)
  show "\<forall>seg \<in> set three_spans.
     (\<exists>a. seconds_to_hms (d_start seg) = Inr a) \<and> (\<exists>b. seconds_to_hms (d_end seg) = Inr b)"
    by (rule three_spans_time_codes)
  show "\<forall>k < length three_spans.
              sub_clip_created world_trim2 ''/tmp/run'' (path_join ''/tmp/run'' ''trimmed_audio.wav'') k (three_spans ! k)
                \<longrightarrow> (\<exists>raw. quiet_model (segment_path ''/tmp/run'' k) = Inr raw)"
    by (simp add: quiet_model_def)
qed

theorem temporary_clips_removed_witness:
  "snd (process_audio world_trim2 {''/data/talk.wav''} ''/tmp/run'' ''/data/talk.wav''
          ''00:00:00'' (Some ''00:00:30'') ''base'') \<subseteq> {''/data/talk.wav''}
   \<and> snd (process_segment world_trim2 quiet_model ''/tmp/run'' ''/tmp/run/trimmed_audio.wav'' 0
            (three_spans ! 0) [] {''/tmp/run/trimmed_audio.wav''}) \<subseteq> {''/tmp/run/trimmed_audio.wav''}"
proof -
  have s: "fst (process_segment world_trim2 quiet_model ''/tmp/run'' ''/tmp/run/trimmed_audio.wav'' 0
            (three_spans ! 0) [] {''/tmp/run/trimmed_audio.wav''})
          = Inr [\<lparr>t_speaker = d_speaker (three_spans ! 0), t_text = strip '' hello '',
                  t_start = d_start (three_spans ! 0), t_end = d_end (three_spans ! 0)\<rparr>]"
    by (subst process_segment_created [where raw = "'' hello ''"])
      (simp_all add: created_trim2 quiet_model_def)
  show ?thesis
    using temporary_clips_removed [where w = world_trim2 and fs = "{''/data/talk.wav''}"
        and d = "''/tmp/run''" and file_path = "''/data/talk.wav''" and start_time = "''00:00:00''"
        and end_time = "Some ''00:00:30''" and whisper_model = "''base''" and model = quiet_model
        and ts = "expected_transcript world_trim2 quiet_model ''/tmp/run''
              (path_join ''/tmp/run'' ''trimmed_audio.wav'') 0 three_spans"]
      temporary_clips_removed [where w = world_trim2 and fs = "{''/tmp/run/trimmed_audio.wav''}"
        and d = "''/tmp/run''" and model = quiet_model and trimmed = "''/tmp/run/trimmed_audio.wav''"
        and i = 0 and seg = "three_spans ! 0" and acc = "[]"]
      trim2_run s
    by blast
qed

text \<open>
  Claim C3 as stated fails: a run with no span and a run whose main trim fails return
  the same value, and the caller reports the empty transcript as an error.
\<close>

theorem empty_outcomes_counterexample:
  "fst (process_audio world_silent {''/data/talk.wav''} ''/tmp/run'' ''/data/talk.wav''
          ''00:00:00'' (Some ''00:00:30'') ''base'')
     = fst (process_audio world_no_trim {''/data/talk.wav''} ''/tmp/run'' ''/data/talk.wav''
          ''00:00:00'' (Some ''00:00:30'') ''base'')
   \<and> shown_errors (snd (transcribe_audio_source world_silent fresh_app ''/tmp/src'' ''/tmp/run''
          ''/data/talk.wav'' False ''00:00:00'' (Some ''00:00:30'') ''base''))
       = [''No transcriptions generated.'']"
proof -
  have a: "process_audio world_silent fs ''/tmp/run'' ''/data/talk.wav''
          ''00:00:00'' (Some ''00:00:30'') ''base'' = (Inr [], fs - {path_join ''/tmp/run'' ''trimmed_audio.wav''})" for fs
    by (rule process_audio_silent [where model = quiet_model]) (simp_all add: world_silent_def)
  have b: "process_audio world_no_trim fs ''/tmp/run'' ''/data/talk.wav''
          ''00:00:00'' (Some ''00:00:30'') ''base'' = (Inr [], fs)" for fs
    by (rule process_audio_no_trim) (simp add: world_no_trim_def)
  show ?thesis
    by (simp add: a b transcribe_audio_source_def st_error_def fresh_app_def)
qed

text \<open>
  Claim C3, as amended. With no span on a trimmed clip \<open>process_audio\<close> returns the
  empty transcript without raising; a failed trim of the main clip returns the same
  empty list; in both cases \<open>transcribe_audio_source\<close> raises nothing, shows
  \<open>No transcriptions generated.\<close> and leaves the stored transcript as it was.
\<close>

theorem empty_transcript_outcomes:
  assumes "(trim_ok w file_path start_time end_time (path_join d ''trimmed_audio.wav'')
              \<and> run_diarization w (path_join d ''trimmed_audio.wav'') = Inr []
              \<and> load_model w whisper_model = Inr model)
           \<or> \<not> trim_ok w file_path start_time end_time (path_join d ''trimmed_audio.wav'')"
  shows "fst (process_audio w fs d file_path start_time end_time whisper_model) = Inr []
         \<and> fst (transcribe_audio_source w a d0 d file_path False start_time end_time whisper_model) = None
         \<and> shown_errors (snd (transcribe_audio_source w a d0 d file_path False start_time end_time whisper_model))
             = shown_errors a @ [''No transcriptions generated.'']
         \<and> transcriptions (snd (transcribe_audio_source w a d0 d file_path False start_time end_time whisper_model))
             = transcriptions a"
  using assms
proof
  assume h: "trim_ok w file_path start_time end_time (path_join d ''trimmed_audio.wav'')
              \<and> run_diarization w (path_join d ''trimmed_audio.wav'') = Inr []
              \<and> load_model w whisper_model = Inr model"
  then have "process_audio w fs' d file_path start_time end_time whisper_model
               = (Inr [], fs' - {path_join d ''trimmed_audio.wav''})" for fs'
    by (intro process_audio_silent [where model = model]) simp_all
  then show ?thesis by (simp add: transcribe_audio_source_def st_error_def)
next
  assume "\<not> trim_ok w file_path start_time end_time (path_join d ''trimmed_audio.wav'')"
  then have "process_audio w fs' d file_path start_time end_time whisper_model = (Inr [], fs')" for fs'
    by (rule process_audio_no_trim)
  then show ?thesis by (simp add: transcribe_audio_source_def st_error_def)
qed

theorem empty_transcript_outcomes_witness:
  "fst (process_audio world_silent {} ''/tmp/run'' ''/data/talk.wav'' ''00:00:00'' None ''base'') = Inr []
   \<and> fst (process_audio world_no_trim {} ''/tmp/run'' ''/data/talk.wav'' ''00:00:00'' None ''base'') = Inr []
   \<and> shown_errors (snd (transcribe_audio_source world_no_trim fresh_app ''/tmp/src'' ''/tmp/run''
          ''/data/talk.wav'' False ''00:00:00'' None ''base''))
       = [''No transcriptions generated.'']"
  using empty_transcript_outcomes [where w = world_silent and d = "''/tmp/run''"
      and file_path = "''/data/talk.wav''" and start_time = "''00:00:00''" and end_time = None
      and whisper_model = "''base''" and model = quiet_model and fs = "{}" and a = fresh_app
      and ?d0.0 = "''/tmp/src''"]
    empty_transcript_outcomes [where w = world_no_trim and d = "''/tmp/run''"
      and file_path = "''/data/talk.wav''" and start_time = "''00:00:00''" and end_time = None
      and whisper_model = "''base''" and model = quiet_model and fs = "{}" and a = fresh_app
      and ?d0.0 = "''/tmp/src''"]
  by (simp add: world_silent_def world_no_trim_def fresh_app_def)

section \<open>Reading a time code\<close>

lemma digit_facts:
  assumes "is_digit c"
  shows "c \<noteq> CHR ''.''" "c \<noteq> CHR '':''" "c \<noteq> CHR ''_''" "c \<noteq> CHR ''-''" "c \<noteq> CHR ''+''"
    "\<not> is_space c"
  using assms by (auto simp: is_digit_def is_space_def)

lemma digit_char_props: "k < 10 \<Longrightarrow> is_digit (digit_char k) \<and> digit_val (digit_char k) = k"
  by (simp add: is_digit_def digit_val_def digit_char_def)

lemma strip_id:
  assumes "s \<noteq> []" "\<not> is_space (hd s)" "\<not> is_space (last s)"
  shows "strip s = s"
proof -
  have a: "dropWhile is_space s = s" using assms(2) by (simp add: dropWhile_eq_self_iff)
  have "\<not> is_space (hd (rev s))" using assms(1,3) by (simp add: hd_rev)
  then have b: "dropWhile is_space (rev s) = rev s" by (simp add: dropWhile_eq_self_iff)
  show ?thesis by (simp add: strip_def lstrip_def rstrip_def a b)
qed

lemma py_int_two:
  assumes "is_digit a" "is_digit b"
  shows "py_int [a, b] = Inr (int (10 * digit_val a + digit_val b))"
  using assms digit_facts [OF assms(1)] digit_facts [OF assms(2)]
  by (simp add: py_int_def strip_id read_sign_def digitpart_def)

lemma py_float_frac:
  assumes "is_digit g" "is_digit h" "is_digit i"
  shows "py_float [CHR ''0'', CHR ''.'', g, h, i]
           = Inr (to_float (of_nat (100 * digit_val g + 10 * digit_val h + digit_val i) / 1000))"
proof -
  have z: "is_digit CHR ''0''" "digit_val CHR ''0'' = 0" "\<not> is_space CHR ''0''"
    "\<not> is_digit CHR ''.''"
    by (simp_all add: is_digit_def digit_val_def is_space_def)
  have s: "strip [CHR ''0'', CHR ''.'', g, h, i] = ''0.'' @ [g, h, i]"
    using digit_facts [OF assms(3)] z by (simp add: strip_id)
  have l: "to_lower CHR ''0'' = CHR ''0''" by (simp add: to_lower_def)
  have m: "read_mantissa [CHR ''0'', CHR ''.'', g, h, i]
             = Some (100 * digit_val g + 10 * digit_val h + digit_val i, 3, [])"
    using assms z digit_facts [OF assms(1)] digit_facts [OF assms(2)] digit_facts [OF assms(3)]
    by (simp add: read_mantissa_def digitpart_def)
  have p: "(10::rat) powi (- 3) = 1 / 1000" by simp
  show ?thesis
    unfolding py_float_def s
    by (simp add: read_sign_def l read_number_def m read_exponent_def p del: power_int_numeral_neg_numeral)
qed

lemma split_full:
  assumes "is_digit a" "is_digit b" "is_digit c" "is_digit d" "is_digit e" "is_digit f"
    "is_digit g" "is_digit h" "is_digit i"
  shows "split_ms [a, b, CHR '':'', c, d, CHR '':'', e, f, CHR ''.'', g, h, i]
           = (case py_float [CHR ''0'', CHR ''.'', g, h, i] of Inl x \<Rightarrow> Inl x
              | Inr ms \<Rightarrow> Inr ([a, b, CHR '':'', c, d, CHR '':'', e, f], ms))"
    and "split_on CHR '':'' [a, b, CHR '':'', c, d, CHR '':'', e, f] = [[a, b], [c, d], [e, f]]"
  using assms [THEN digit_facts(1)] assms [THEN digit_facts(2)]
  by (simp_all add: split_ms_def)

lemma hms_to_seconds_full:
  assumes "is_digit a" "is_digit b" "is_digit c" "is_digit d" "is_digit e" "is_digit f"
    "is_digit g" "is_digit h" "is_digit i"
  shows "hms_to_seconds [a, b, CHR '':'', c, d, CHR '':'', e, f, CHR ''.'', g, h, i]
           = int_add_float (int (10 * digit_val a + digit_val b) * 3600
                 + int (10 * digit_val c + digit_val d) * 60 + int (10 * digit_val e + digit_val f))
               (to_float (of_nat (100 * digit_val g + 10 * digit_val h + digit_val i) / 1000))"
  by (simp add: hms_to_seconds_def split_full [OF assms] py_float_frac [OF assms(7-9)]
      py_int_two assms del: split_on.simps)

lemma small_powers:
  "(2::rat) powi 0 = 1" "(2::rat) powi (- 54) = 1 / 2 ^ 54" "(2::rat) powi (- 35) = 1 / 2 ^ 35"
  "(2::rat) powi 19 = 2 ^ 19"
  by (simp_all add: power_int_minus divide_simps)

lemma small_eps: "(1::rat) / 2 ^ 54 < 1 / 4000" "(1::rat) / 2 ^ 35 < 1 / 4000" "(2::rat) < 2 ^ 53"
  "(360001::rat) < 2 ^ 53" "(360001::rat) < 2 ^ 19"
  by simp_all

lemma fraction_float:
  assumes ms: "ms < (1000::nat)"
  defines "f \<equiv> rd (of_nat ms / 1000)"
  shows "\<bar>f - of_nat ms / 1000\<bar> \<le> 1 / 2 ^ 54" and "0 \<le> f" and "ms = 0 \<Longrightarrow> f = 0"
    and "to_float (of_nat ms / 1000) = Fin f"
proof -
  have a: "\<bar>(of_nat ms / 1000 :: rat)\<bar> < 2 powi 0" using ms by simp
  have e: "\<bar>f - of_nat ms / 1000\<bar> \<le> 2 powi (0 - 54)"
    unfolding f_def by (rule rd_err [OF a]) simp
  then show e': "\<bar>f - of_nat ms / 1000\<bar> \<le> 1 / 2 ^ 54" by (simp add: small_powers)
  show z: "ms = 0 \<Longrightarrow> f = 0" by (simp add: f_def rd_def)
  show f0: "0 \<le> f"
  proof (cases "ms = 0")
    case True then show ?thesis using z by simp
  next
    case False
    then have "1 \<le> (of_nat ms :: rat)" by simp
    then have "(1 / 1000 :: rat) \<le> of_nat ms / 1000" by simp
    then show ?thesis using e' small_eps(1) by linarith
  qed
  have "(of_nat ms :: rat) < 1000" using ms by simp
  then have "(of_nat ms / 1000 :: rat) < 1" by simp
  then have "\<bar>f\<bar> < 2" using e' f0 small_eps(1) by linarith
  then have "\<bar>f\<bar> < 2 ^ 53" using small_eps(3) by linarith
  then show "to_float (of_nat ms / 1000) = Fin f"
    by (intro to_float_fin) (simp_all add: f_def)
qed

lemma round_trip_value:
  assumes N: "N < (360000::nat)" and ms: "ms < (1000::nat)"
  defines "t \<equiv> rd (of_nat N + rd (of_nat ms / 1000))"
  shows "int_add_float (int N) (to_float (of_nat ms / 1000)) = Inr (Fin t)"
    and "is_binary64 t" and "of_nat N \<le> t" and "\<bar>t - (of_nat N + of_nat ms / 1000)\<bar> < 1 / 2000"
    and "t < 2 ^ 53"
proof -
  define f where "f = rd (of_nat ms / 1000)"
  note fr = fraction_float [OF ms, folded f_def]
  have Nr: "(of_nat N :: rat) < 360000" "(0::rat) \<le> of_nat N" using N by simp_all
  have msr: "(of_nat ms :: rat) \<le> 999" "(0::rat) \<le> of_nat ms" using ms by simp_all
  have fq: "f < 1" using fr(1) msr small_eps(1) by linarith
  have "\<bar>of_nat N + f\<bar> < 2 ^ 19" using Nr fq fr(2) small_eps(5) by linarith
  then have a: "\<bar>of_nat N + f\<bar> < 2 powi 19" by (simp only: small_powers)
  have e: "\<bar>t - (of_nat N + f)\<bar> \<le> 2 powi (19 - 54)"
    unfolding t_def f_def [symmetric] by (rule rd_err [OF a]) simp
  then have e': "\<bar>t - (of_nat N + f)\<bar> \<le> 1 / 2 ^ 35" by (simp add: small_powers)
  show c: "\<bar>t - (of_nat N + of_nat ms / 1000)\<bar> < 1 / 2000"
    using e' fr(1) small_eps(1,2) by linarith
  show lo: "of_nat N \<le> t"
  proof (cases "ms = 0")
    case True
    then have "t = rd (of_int (int N))" using fr(3) by (simp add: t_def f_def)
    also have "\<dots> = of_int (int N)" using N by (intro rd_of_int) simp
    finally show ?thesis by simp
  next
    case False
    then have "1 \<le> (of_nat ms :: rat)" by simp
    then have "(1 / 1000 :: rat) \<le> of_nat ms / 1000" by simp
    then show ?thesis using c by linarith
  qed
  show t53: "t < 2 ^ 53" using c Nr msr small_eps(4) by linarith
  show "is_binary64 t" by (simp add: is_binary64_def t_def rd_idem)
  have i: "int_to_float (int N) = Inr (of_nat N)"
    using int_to_float_small [of "int N"] N by simp
  have "\<bar>t\<bar> < 2 ^ 53" using t53 lo Nr by linarith
  then have "to_float (of_nat N + f) = Fin t"
    by (intro to_float_fin) (simp_all add: t_def f_def)
  then show "int_add_float (int N) (to_float (of_nat ms / 1000)) = Inr (Fin t)"
    by (simp add: int_add_float_def i fr(4))
qed

lemma fields_of_value:
  assumes M: "M < (60::nat)" and S: "S < (60::nat)" and ms: "ms < (1000::nat)"
    and lo: "of_nat (3600 * H + 60 * M + S) \<le> t"
    and c: "\<bar>t - (of_nat (3600 * H + 60 * M + S) + of_nat ms / 1000)\<bar> < 1 / 2000"
  shows "hours_of t = int H" and "minutes_of t = int M"
    and "round_half_even (1000 * secs_of t) = int (1000 * S + ms)"
proof -
  have Mr: "(of_nat M :: rat) \<le> 59" "(0::rat) \<le> of_nat M" using M by simp_all
  have Sr: "(of_nat S :: rat) \<le> 59" "(0::rat) \<le> of_nat S" using S by simp_all
  have msr: "(of_nat ms :: rat) \<le> 999" "(0::rat) \<le> of_nat ms" using ms by simp_all
  define N where "N = 3600 * H + 60 * M + S"
  have Nq: "(of_nat N :: rat) = 3600 * of_nat H + 60 * of_nat M + of_nat S" by (simp add: N_def)
  note lo = lo [folded N_def] and c = c [folded N_def]
  have hi: "t < of_nat N + 1" using c msr by linarith
  have "of_nat H \<le> t / 3600" "t / 3600 < of_nat H + 1"
    using lo hi Mr Sr Nq by linarith+
  then have "of_int (int H) \<le> t / 3600" "t / 3600 < of_int (int H) + 1"
    by (simp_all only: of_int_of_nat_eq)
  then show h: "hours_of t = int H" unfolding hours_of_def by (simp only: floor_unique)
  define y where "y = t - 3600 * of_nat H"
  have "60 * of_nat M \<le> y" "y < 60 * of_nat M + 60"
    using lo hi Mr Sr Nq unfolding y_def by linarith+
  then have "of_nat M \<le> y / 60" "y / 60 < of_nat M + 1" by linarith+
  then have "of_nat M \<le> (t - 3600 * of_nat H) / 60" "(t - 3600 * of_nat H) / 60 < of_nat M + 1"
    unfolding y_def by blast+
  then have "of_int (int M) \<le> (t - 3600 * of_int (int H)) / 60"
    "(t - 3600 * of_int (int H)) / 60 < of_int (int M) + 1"
    by (simp_all only: of_int_of_nat_eq)
  then show m: "minutes_of t = int M" unfolding minutes_of_def h by (simp only: floor_unique)
  have "secs_of t = t - 3600 * of_nat H - 60 * of_nat M" by (simp add: secs_of_def h m)
  moreover have "(of_int (int (1000 * S + ms)) :: rat) = 1000 * of_nat S + of_nat ms" by simp
  ultimately have "\<bar>1000 * secs_of t - of_int (int (1000 * S + ms))\<bar> < 1 / 2"
    using c Nq by linarith
  then show "round_half_even (1000 * secs_of t) = int (1000 * S + ms)" by (rule rhe_close)
qed

lemma hms_text_chars:
  assumes "H < 100"
  shows "hms_text H M S ms =
    [digit_char (H div 10), digit_char (H mod 10), CHR '':'',
     digit_char (M div 10), digit_char (M mod 10), CHR '':'',
     digit_char (S div 10), digit_char (S mod 10), CHR ''.'',
     digit_char (ms div 100), digit_char (ms div 10 mod 10), digit_char (ms mod 10)]"
  using assms by (simp add: hms_text_def zfill_2_show_nat two_digits_def three_digits_def)

lemma digits_join:
  "100 * (ms div 100) + 10 * (ms div 10 mod 10) + ms mod 10 = (ms::nat)"
  "10 * (H div 10) + H mod 10 = (H::nat)"
proof -
  have c: "ms div 10 div 10 = ms div 100" by (simp add: div_mult2_eq [symmetric])
  have a: "ms div 10 = 10 * (ms div 100) + ms div 10 mod 10"
    using mult_div_mod_eq [of 10 "ms div 10"] unfolding c by linarith
  have b: "ms = 10 * (ms div 10) + ms mod 10" by simp
  show "100 * (ms div 100) + 10 * (ms div 10 mod 10) + ms mod 10 = ms"
    using a b by linarith
  show "10 * (H div 10) + H mod 10 = H" by simp
qed

lemma hms_to_seconds_text:
  assumes H: "H < 100" and M: "M < 60" and S: "S < 60" and ms: "ms < 1000"
  shows "hms_to_seconds (hms_text H M S ms)
           = int_add_float (int (3600 * H + 60 * M + S)) (to_float (of_nat ms / 1000))"
proof -
  have d: "H div 10 < 10" "H mod 10 < 10" "M div 10 < 10" "M mod 10 < 10" "S div 10 < 10"
    "S mod 10 < 10" "ms div 100 < 10" "ms div 10 mod 10 < 10" "ms mod 10 < 10"
    using H M S ms by simp_all
  note p = d [THEN digit_char_props]
  note dg = p [THEN conjunct1] and dv = p [THEN conjunct2]
  have e: "int H * 3600 + int M * 60 + int S = int (3600 * H + 60 * M + S)" by simp
  show ?thesis
    unfolding hms_text_chars [OF H] hms_to_seconds_full [OF dg] dv digits_join e ..
qed

lemma round_trip_text:
  assumes H: "H < 100" and M: "M < 60" and S: "S < 60" and ms: "ms < 1000"
  shows "\<exists>t. hms_to_seconds (hms_text H M S ms) = Inr (Fin t)
           \<and> seconds_to_hms (Fin t) = Inr (hms_text H M S ms)"
proof -
  define N where "N = 3600 * H + 60 * M + S"
  define t where "t = rd (of_nat N + rd (of_nat ms / 1000))"
  have N: "N < 360000" using H M S by (simp add: N_def)
  note v = round_trip_value [OF N ms, folded t_def]
  have "(0::rat) \<le> of_nat N" by simp
  then have t0: "0 \<le> t" using v(3) by linarith
  note fl = fields_of_value [OF M S ms v(3) [unfolded N_def] v(4) [unfolded N_def]]
  have r: "(1000 * S + ms) div 1000 = S" "(1000 * S + ms) mod 1000 = ms"
    using ms by simp_all
  have "seconds_to_hms (Fin t) = Inr (rounded_text t)"
    by (rule seconds_to_hms_exact [OF v(2) t0 v(5)])
  also have "rounded_text t = hms_text H M S ms"
    unfolding rounded_text_def Let_def fl nat_int r ..
  finally have "seconds_to_hms (Fin t) = Inr (hms_text H M S ms)" .
  moreover have "hms_to_seconds (hms_text H M S ms) = Inr (Fin t)"
    unfolding hms_to_seconds_text [OF H M S ms] N_def [symmetric] by (rule v(1))
  ultimately show ?thesis by blast
qed

end
